theory Spec2Isabelle
  imports Main
begin

section \<open>The carousel component of src/carousel.js\<close>

text \<open>
  A shallow embedding of the \<^verbatim>\<open>Carousel\<close> class and of the two legacy free functions.
  Conventions of the model:
  \<^item> JavaScript numbers that hold slide indices, step directions and touch coordinates are
    modelled as \<open>int\<close>; fractional values and NaN are outside the model.
  \<^item> A DOM element is an identity (\<open>element\<close>); its \<^verbatim>\<open>classList\<close> is a list of tokens kept in
    the world. The shape of the document never changes, so the selector queries the code
    makes are a fixed component of the world (\<open>page\<close>).
  \<^item> \<^verbatim>\<open>Carousel\<close> objects live in a store (\<open>heap\<close>) addressed by references; every method takes
    the reference \<open>this\<close> and the world and returns the new world.
  \<^item> A live \<^verbatim>\<open>setInterval\<close> timer is an entry of \<open>intervals\<close>: its handle, and the instance
    its callback \<^verbatim>\<open>() => this.changeSlide(1)\<close> closes over. Handles are positive and fresh,
    as the HTML standard requires.
  \<^item> Listeners are entries of \<open>listeners\<close>; the closures the code registers are the
    constructors of \<open>handler\<close>.
  \<^item> The record \<open>carousel\<close> describes an object whose container was resolved (the
    constructor got past its first early return). The object left behind when the container
    is not found has none of these fields and is not in the store.
\<close>

subsection \<open>Data\<close>

type_synonym element = nat
type_synonym ref = nat

record carousel_options =
  autoAdvance :: bool
  autoAdvanceTime :: int
  enableKeyboard :: bool
  enableTouch :: bool
  loop :: bool
  startSlide :: int

text \<open>The \<^verbatim>\<open>options\<close> argument of the constructor: each key is present or absent.\<close>

record overrides =
  given_autoAdvance :: "bool option"
  given_autoAdvanceTime :: "int option"
  given_enableKeyboard :: "bool option"
  given_enableTouch :: "bool option"
  given_loop :: "bool option"
  given_startSlide :: "int option"

record carousel =
  container :: element
  options :: carousel_options
  currentSlideIndex :: int
  slides :: "element list"
  indicators :: "element list"
  totalSlides :: int
  autoAdvanceInterval :: "nat option"
  touchStartX :: int
  touchEndX :: int

datatype event_target = Document | Element element

datatype event = Click | Keydown string | Mouseenter | Mouseleave | Touchstart int | Touchend int

text \<open>The closures registered by \<^verbatim>\<open>setupEventListeners\<close> and \<^verbatim>\<open>setupTouchEvents\<close>, each with
  the instance (and, for an indicator, the index) it captures.\<close>

datatype handler =
    Prev_click ref
  | Next_click ref
  | Indicator_click ref int
  | Arrow_keys ref
  | Hover_enter ref
  | Hover_leave ref
  | Touch_begin ref
  | Touch_finish ref

record listener =
  on_target :: event_target
  on_type :: string
  on_handler :: handler

record interval =
  handle :: nat
  callback_this :: ref
  delay :: int

text \<open>The selector queries of the code, answered by the (unchanging) document:
  \<^verbatim>\<open>document.querySelector(s)\<close>, \<^verbatim>\<open>container.querySelectorAll(s)\<close> and
  \<^verbatim>\<open>container.querySelector(s)\<close>.\<close>

record selectors =
  document_querySelector :: "string \<Rightarrow> element option"
  querySelectorAll :: "element \<Rightarrow> string \<Rightarrow> element list"
  querySelector :: "element \<Rightarrow> string \<Rightarrow> element option"

record world =
  page :: selectors
  classList :: "element \<Rightarrow> string list"
  heap :: "ref \<Rightarrow> carousel"
  nextRef :: ref
  intervals :: "interval list"
  lastHandle :: nat
  listeners :: "listener list"
  console :: "string list"
  globalCarousels :: "(string \<times> ref) list"

subsection \<open>The browser interface used by the code\<close>

definition classList_remove :: "element \<Rightarrow> string \<Rightarrow> world \<Rightarrow> world" where
  "classList_remove e tok w = w\<lparr>classList := (classList w)(e := removeAll tok (classList w e))\<rparr>"

definition classList_add :: "element \<Rightarrow> string \<Rightarrow> world \<Rightarrow> world" where
  "classList_add e tok w =
     w\<lparr>classList := (classList w)(e := (if tok \<in> set (classList w e) then classList w e
                                          else classList w e @ [tok]))\<rparr>"

text \<open>\<^verbatim>\<open>list[index]\<close> on a NodeList: the element, or \<^verbatim>\<open>undefined\<close> out of range.\<close>

definition item :: "element list \<Rightarrow> int \<Rightarrow> element option" where
  "item xs index = (if 0 \<le> index \<and> index < int (length xs) then Some (xs ! nat index) else None)"

definition setInterval :: "ref \<Rightarrow> int \<Rightarrow> world \<Rightarrow> nat \<times> world" where
  "setInterval cb_this ms w =
     (let h = Suc (lastHandle w)
      in (h, w\<lparr>intervals := intervals w @ [\<lparr>handle = h, callback_this = cb_this, delay = ms\<rparr>],
               lastHandle := h\<rparr>))"

definition clearInterval :: "nat \<Rightarrow> world \<Rightarrow> world" where
  "clearInterval h w = w\<lparr>intervals := filter (\<lambda>t. handle t \<noteq> h) (intervals w)\<rparr>"

definition addEventListener :: "event_target \<Rightarrow> string \<Rightarrow> handler \<Rightarrow> world \<Rightarrow> world" where
  "addEventListener tgt ty h w =
     w\<lparr>listeners := listeners w @ [\<lparr>on_target = tgt, on_type = ty, on_handler = h\<rparr>]\<rparr>"

definition console_error :: "string \<Rightarrow> world \<Rightarrow> world" where
  "console_error msg w = w\<lparr>console := console w @ [msg]\<rparr>"

text \<open>Assignment to a field of the object \<open>this\<close>.\<close>

definition update_this :: "ref \<Rightarrow> (carousel \<Rightarrow> carousel) \<Rightarrow> world \<Rightarrow> world" where
  "update_this this f w = w\<lparr>heap := (heap w)(this := f (heap w this))\<rparr>"

subsection \<open>The methods of \<^verbatim>\<open>Carousel\<close>\<close>

text \<open>\<^verbatim>\<open>showSlide(index)\<close>, lines 117 to 130: clear the token on every slide and every
  indicator, then add it to \<^verbatim>\<open>this.slides[index]\<close> and to \<^verbatim>\<open>this.indicators[index]\<close> where
  they exist.\<close>

definition showSlide :: "ref \<Rightarrow> int \<Rightarrow> world \<Rightarrow> world" where
  "showSlide this index w0 =
     (let w1 = fold (\<lambda>slide. classList_remove slide ''active'') (slides (heap w0 this)) w0;
          w2 = fold (\<lambda>indicator. classList_remove indicator ''active'') (indicators (heap w1 this)) w1;
          w3 = (case item (slides (heap w2 this)) index of
                  Some slide \<Rightarrow> classList_add slide ''active'' w2
                | None \<Rightarrow> w2)
      in (case item (indicators (heap w3 this)) index of
            Some indicator \<Rightarrow> classList_add indicator ''active'' w3
          | None \<Rightarrow> w3))"

text \<open>\<^verbatim>\<open>stopAutoAdvance()\<close>, lines 176 to 181. The test \<^verbatim>\<open>if (this.autoAdvanceInterval)\<close> fails
  for \<^verbatim>\<open>null\<close> and for the number 0.\<close>

definition stopAutoAdvance :: "ref \<Rightarrow> world \<Rightarrow> world" where
  "stopAutoAdvance this w =
     (case autoAdvanceInterval (heap w this) of
        None \<Rightarrow> w
      | Some h \<Rightarrow>
          if h = 0 then w
          else update_this this (\<lambda>c. c\<lparr>autoAdvanceInterval := None\<rparr>) (clearInterval h w))"

text \<open>\<^verbatim>\<open>startAutoAdvance()\<close>, lines 169 to 174.\<close>

definition startAutoAdvance :: "ref \<Rightarrow> world \<Rightarrow> world" where
  "startAutoAdvance this w0 =
     (let w1 = stopAutoAdvance this w0
      in (case setInterval this (autoAdvanceTime (options (heap w1 this))) w1 of
            (h, w2) \<Rightarrow> update_this this (\<lambda>c. c\<lparr>autoAdvanceInterval := Some h\<rparr>) w2))"

text \<open>\<^verbatim>\<open>changeSlide(direction)\<close>, lines 132 to 154: add the direction, wrap (loop mode) or
  clamp, render, and restart the timer when auto-advance is on.\<close>

definition changeSlide :: "ref \<Rightarrow> int \<Rightarrow> world \<Rightarrow> world" where
  "changeSlide this direction w0 =
     (let w1 = update_this this (\<lambda>c. c\<lparr>currentSlideIndex := currentSlideIndex c + direction\<rparr>) w0;
          w2 = (if loop (options (heap w1 this)) then
                  (if currentSlideIndex (heap w1 this) \<ge> totalSlides (heap w1 this) then
                     update_this this (\<lambda>c. c\<lparr>currentSlideIndex := 0\<rparr>) w1
                   else if currentSlideIndex (heap w1 this) < 0 then
                     update_this this (\<lambda>c. c\<lparr>currentSlideIndex := totalSlides c - 1\<rparr>) w1
                   else w1)
                else
                  update_this this
                    (\<lambda>c. c\<lparr>currentSlideIndex := max 0 (min (currentSlideIndex c) (totalSlides c - 1))\<rparr>) w1);
          w3 = showSlide this (currentSlideIndex (heap w2 this)) w2
      in if autoAdvance (options (heap w3 this)) then startAutoAdvance this (stopAutoAdvance this w3)
         else w3)"

text \<open>\<^verbatim>\<open>goToSlide(index)\<close>, lines 156 to 167.\<close>

definition goToSlide :: "ref \<Rightarrow> int \<Rightarrow> world \<Rightarrow> world" where
  "goToSlide this index w0 =
     (if index \<ge> 0 \<and> index < totalSlides (heap w0 this) then
        (let w1 = update_this this (\<lambda>c. c\<lparr>currentSlideIndex := index\<rparr>) w0;
             w2 = showSlide this (currentSlideIndex (heap w1 this)) w1
         in if autoAdvance (options (heap w2 this)) then startAutoAdvance this (stopAutoAdvance this w2)
            else w2)
      else w0)"

text \<open>\<^verbatim>\<open>handleSwipe()\<close>, lines 104 to 115.\<close>

definition handleSwipe :: "ref \<Rightarrow> world \<Rightarrow> world" where
  "handleSwipe this w =
     (let swipeThreshold = 50;
          diff = touchStartX (heap w this) - touchEndX (heap w this)
      in if \<bar>diff\<bar> > swipeThreshold then
           (if diff > 0 then changeSlide this 1 w else changeSlide this (- 1) w)
         else w)"

text \<open>The public API. (\<^verbatim>\<open>next\<close> is a reserved word of the proof language, hence \<open>next_slide\<close>.)\<close>

definition next_slide :: "ref \<Rightarrow> world \<Rightarrow> world" where
  "next_slide this w = changeSlide this 1 w"

definition prev :: "ref \<Rightarrow> world \<Rightarrow> world" where
  "prev this w = changeSlide this (- 1) w"

definition goTo :: "ref \<Rightarrow> int \<Rightarrow> world \<Rightarrow> world" where
  "goTo this index w = goToSlide this index w"

definition destroy :: "ref \<Rightarrow> world \<Rightarrow> world" where
  "destroy this w = stopAutoAdvance this w"

subsection \<open>Listeners and timers\<close>

text \<open>What each registered closure does when it is called with an event. A closure is only
  called with events of the type it was registered for (see \<open>dispatchEvent\<close>); the last
  equation is for the combinations that do not occur.\<close>

fun handle_event :: "handler \<Rightarrow> event \<Rightarrow> world \<Rightarrow> world" where
  "handle_event (Prev_click this) e w = changeSlide this (- 1) w"
| "handle_event (Next_click this) e w = changeSlide this 1 w"
| "handle_event (Indicator_click this index) e w = goToSlide this index w"
| "handle_event (Arrow_keys this) (Keydown key) w =
     (if key = ''ArrowLeft'' then changeSlide this (- 1) w
      else if key = ''ArrowRight'' then changeSlide this 1 w
      else w)"
| "handle_event (Hover_enter this) e w = stopAutoAdvance this w"
| "handle_event (Hover_leave this) e w =
     (if autoAdvance (options (heap w this)) then startAutoAdvance this w else w)"
| "handle_event (Touch_begin this) (Touchstart x) w = update_this this (\<lambda>c. c\<lparr>touchStartX := x\<rparr>) w"
| "handle_event (Touch_finish this) (Touchend x) w =
     handleSwipe this (update_this this (\<lambda>c. c\<lparr>touchEndX := x\<rparr>) w)"
| "handle_event _ _ w = w"

fun event_type :: "event \<Rightarrow> string" where
  "event_type Click = ''click''"
| "event_type (Keydown key) = ''keydown''"
| "event_type Mouseenter = ''mouseenter''"
| "event_type Mouseleave = ''mouseleave''"
| "event_type (Touchstart x) = ''touchstart''"
| "event_type (Touchend x) = ''touchend''"

text \<open>An event reaching \<open>tgt\<close> runs the listeners registered there for its type, in order of
  registration.\<close>

definition dispatchEvent :: "event_target \<Rightarrow> event \<Rightarrow> world \<Rightarrow> world" where
  "dispatchEvent tgt e w =
     fold (\<lambda>l w'. if on_target l = tgt \<and> on_type l = event_type e
                   then handle_event (on_handler l) e w' else w')
          (listeners w) w"

text \<open>The timer with handle \<open>h\<close> fires: if it is still live, its callback runs.\<close>

definition interval_fires :: "nat \<Rightarrow> world \<Rightarrow> world" where
  "interval_fires h w =
     (case find (\<lambda>t. handle t = h) (intervals w) of
        None \<Rightarrow> w
      | Some t \<Rightarrow> changeSlide (callback_this t) 1 w)"

text \<open>\<^verbatim>\<open>setupEventListeners()\<close>, lines 55 to 91, and \<^verbatim>\<open>setupTouchEvents()\<close>, lines 93 to 102.\<close>

definition setupEventListeners :: "ref \<Rightarrow> world \<Rightarrow> world" where
  "setupEventListeners this w0 =
     (let prevBtn = querySelector (page w0) (container (heap w0 this)) ''.carousel-btn-prev'';
          nextBtn = querySelector (page w0) (container (heap w0 this)) ''.carousel-btn-next'';
          w1 = (case prevBtn of
                  Some b \<Rightarrow> addEventListener (Element b) ''click'' (Prev_click this) w0
                | None \<Rightarrow> w0);
          w2 = (case nextBtn of
                  Some b \<Rightarrow> addEventListener (Element b) ''click'' (Next_click this) w1
                | None \<Rightarrow> w1);
          w3 = fold (\<lambda>(indicator, index).
                       addEventListener (Element indicator) ''click'' (Indicator_click this (int index)))
                    (zip (indicators (heap w2 this)) [0 ..< length (indicators (heap w2 this))]) w2;
          w4 = (if enableKeyboard (options (heap w3 this))
                then addEventListener Document ''keydown'' (Arrow_keys this) w3 else w3);
          w5 = addEventListener (Element (container (heap w4 this))) ''mouseenter'' (Hover_enter this) w4
      in addEventListener (Element (container (heap w5 this))) ''mouseleave'' (Hover_leave this) w5)"

definition setupTouchEvents :: "ref \<Rightarrow> world \<Rightarrow> world" where
  "setupTouchEvents this w0 =
     (let w1 = addEventListener (Element (container (heap w0 this))) ''touchstart'' (Touch_begin this) w0
      in addEventListener (Element (container (heap w1 this))) ''touchend'' (Touch_finish this) w1)"

subsection \<open>Construction\<close>

definition default_options :: carousel_options where
  "default_options =
     \<lparr>autoAdvance = True, autoAdvanceTime = 6000, enableKeyboard = True, enableTouch = True,
      loop = True, startSlide = 0\<rparr>"

text \<open>The object spread \<^verbatim>\<open>{ ...defaults, ...options }\<close>: a key that is present wins.\<close>

definition spread :: "carousel_options \<Rightarrow> overrides \<Rightarrow> carousel_options" where
  "spread d ov =
     \<lparr>autoAdvance = (case given_autoAdvance ov of Some v \<Rightarrow> v | None \<Rightarrow> autoAdvance d),
      autoAdvanceTime = (case given_autoAdvanceTime ov of Some v \<Rightarrow> v | None \<Rightarrow> autoAdvanceTime d),
      enableKeyboard = (case given_enableKeyboard ov of Some v \<Rightarrow> v | None \<Rightarrow> enableKeyboard d),
      enableTouch = (case given_enableTouch ov of Some v \<Rightarrow> v | None \<Rightarrow> enableTouch d),
      loop = (case given_loop ov of Some v \<Rightarrow> v | None \<Rightarrow> loop d),
      startSlide = (case given_startSlide ov of Some v \<Rightarrow> v | None \<Rightarrow> startSlide d)\<rparr>"

definition no_overrides :: overrides where
  "no_overrides =
     \<lparr>given_autoAdvance = None, given_autoAdvanceTime = None, given_enableKeyboard = None,
      given_enableTouch = None, given_loop = None, given_startSlide = None\<rparr>"

text \<open>\<^verbatim>\<open>init()\<close>, lines 42 to 53.\<close>

definition init :: "ref \<Rightarrow> world \<Rightarrow> world" where
  "init this w0 =
     (let w1 = setupEventListeners this w0;
          w2 = showSlide this (currentSlideIndex (heap w1 this)) w1;
          w3 = (if autoAdvance (options (heap w2 this)) then startAutoAdvance this w2 else w2)
      in if enableTouch (options (heap w3 this)) then setupTouchEvents this w3 else w3)"

text \<open>The three ways the constructor ends: its two early returns, and after \<^verbatim>\<open>init\<close>.\<close>

datatype construction = Container_not_found | No_slides ref | Initialised ref

definition Carousel :: "string \<Rightarrow> overrides \<Rightarrow> world \<Rightarrow> construction \<times> world" where
  "Carousel containerSelector opts w0 =
     (case document_querySelector (page w0) containerSelector of
        None \<Rightarrow>
          (Container_not_found,
           console_error (''Carousel container not found: '' @ containerSelector) w0)
      | Some cont \<Rightarrow>
          (let this = nextRef w0;
               os = spread default_options opts;
               found = querySelectorAll (page w0) cont ''.carousel-slide'';
               w1 = w0\<lparr>heap := (heap w0)(this :=
                         \<lparr>container = cont,
                          options = os,
                          currentSlideIndex = startSlide os,
                          slides = found,
                          indicators = querySelectorAll (page w0) cont ''.indicator'',
                          totalSlides = int (length found),
                          autoAdvanceInterval = None,
                          touchStartX = 0,
                          touchEndX = 0\<rparr>),
                       nextRef := Suc this\<rparr>
           in if totalSlides (heap w1 this) = 0
              then (No_slides this, console_error ''No carousel slides found'' w1)
              else (Initialised this, init this w1)))"

subsection \<open>The registry and the legacy functions\<close>

text \<open>\<^verbatim>\<open>globalCarousels\<close> is a \<^verbatim>\<open>Map\<close> from identifiers to instances, kept here as the list of its
  entries in insertion order.\<close>

definition Map_get :: "(string \<times> ref) list \<Rightarrow> string \<Rightarrow> ref option" where
  "Map_get m k = map_of m k"

fun Map_set :: "string \<Rightarrow> ref \<Rightarrow> (string \<times> ref) list \<Rightarrow> (string \<times> ref) list" where
  "Map_set k v [] = [(k, v)]"
| "Map_set k v ((k', v') # m) = (if k' = k then (k, v) # m else (k', v') # Map_set k v m)"

text \<open>The free functions \<^verbatim>\<open>changeSlide(direction, carouselId = 'default')\<close> and
  \<^verbatim>\<open>currentSlide(index, carouselId = 'default')\<close>; an omitted identifier is \<open>None\<close>. The free
  \<^verbatim>\<open>changeSlide\<close> is named \<open>global_changeSlide\<close> to keep it apart from the method.\<close>

definition global_changeSlide :: "int \<Rightarrow> string option \<Rightarrow> world \<Rightarrow> world" where
  "global_changeSlide direction carouselId w =
     (case Map_get (globalCarousels w) (case carouselId of None \<Rightarrow> ''default'' | Some i \<Rightarrow> i) of
        Some carousel \<Rightarrow> changeSlide carousel direction w
      | None \<Rightarrow> w)"

definition currentSlide :: "int \<Rightarrow> string option \<Rightarrow> world \<Rightarrow> world" where
  "currentSlide index carouselId w =
     (case Map_get (globalCarousels w) (case carouselId of None \<Rightarrow> ''default'' | Some i \<Rightarrow> i) of
        Some carousel \<Rightarrow> goToSlide carousel (index - 1) w
      | None \<Rightarrow> w)"

subsection \<open>Observations\<close>

text \<open>An element carries active status when its class list contains the token
  \<^verbatim>\<open>active\<close>.\<close>

definition is_active :: "world \<Rightarrow> element \<Rightarrow> bool" where
  "is_active w e \<longleftrightarrow> ''active'' \<in> set (classList w e)"

definition activeSlides :: "ref \<Rightarrow> world \<Rightarrow> element list" where
  "activeSlides this w = filter (is_active w) (slides (heap w this))"

definition activeIndicators :: "ref \<Rightarrow> world \<Rightarrow> element list" where
  "activeIndicators this w = filter (is_active w) (indicators (heap w this))"

text \<open>The handles of the live timers whose callback belongs to instance \<open>a\<close>.\<close>

definition timers_of :: "ref \<Rightarrow> world \<Rightarrow> nat list" where
  "timers_of a w = map handle (filter (\<lambda>t. callback_this t = a) (intervals w))"

subsection \<open>An example page\<close>

text \<open>A page with one container (element 0) that holds three slides (1, 2, 3), three
  indicators (4, 5, 6) and the two buttons (7, 8).\<close>

definition example_page :: selectors where
  "example_page =
     \<lparr>document_querySelector = (\<lambda>s. if s = ''.carousel-container:not([data-carousel])'' then Some 0 else None),
      querySelectorAll = (\<lambda>c s. if c = 0 \<and> s = ''.carousel-slide'' then [1, 2, 3]
                                 else if c = 0 \<and> s = ''.indicator'' then [4, 5, 6] else []),
      querySelector = (\<lambda>c s. if c = 0 \<and> s = ''.carousel-btn-prev'' then Some 7
                              else if c = 0 \<and> s = ''.carousel-btn-next'' then Some 8 else None)\<rparr>"

definition three_slides :: "bool \<Rightarrow> bool \<Rightarrow> int \<Rightarrow> nat option \<Rightarrow> carousel" where
  "three_slides lp auto i timer =
     \<lparr>container = 0,
      options = \<lparr>autoAdvance = auto, autoAdvanceTime = 6000, enableKeyboard = True,
                 enableTouch = True, loop = lp, startSlide = 0\<rparr>,
      currentSlideIndex = i,
      slides = [1, 2, 3],
      indicators = [4, 5, 6],
      totalSlides = 3,
      autoAdvanceInterval = timer,
      touchStartX = 0,
      touchEndX = 0\<rparr>"

text \<open>The page before any script has run, and a page holding one carousel that stands at
  index \<open>i\<close> (rendered, when \<open>i\<close> is the index of a slide) with its timer, if any, running.\<close>

definition loaded_page :: world where
  "loaded_page =
     \<lparr>page = example_page, classList = (\<lambda>e. []), heap = (\<lambda>r. three_slides True True 0 None),
      nextRef = 0, intervals = [], lastHandle = 0, listeners = [], console = [],
      globalCarousels = []\<rparr>"

definition running_page :: "bool \<Rightarrow> bool \<Rightarrow> int \<Rightarrow> world" where
  "running_page lp auto i =
     \<lparr>page = example_page,
      classList = (\<lambda>e. if 0 \<le> i \<and> i < 3 \<and> (e = 1 + nat i \<or> e = 4 + nat i) then [''active''] else []),
      heap = (\<lambda>r. three_slides lp auto i (if auto then Some 1 else None)),
      nextRef = 1,
      intervals = (if auto then [\<lparr>handle = 1, callback_this = 0, delay = 6000\<rparr>] else []),
      lastHandle = 1, listeners = [], console = [],
      globalCarousels = [(''default'', 0)]\<rparr>"

subsection \<open>Everything that can happen on the page\<close>

text \<open>The methods of the class, as calls from outside.\<close>

datatype method_call =
    Init
  | SetupEventListeners
  | SetupTouchEvents
  | HandleSwipe
  | ShowSlide int
  | ChangeSlide int
  | GoToSlide int
  | StartAutoAdvance
  | StopAutoAdvance
  | Next
  | Prev
  | GoTo int
  | Destroy

fun invoke :: "ref \<Rightarrow> method_call \<Rightarrow> world \<Rightarrow> world" where
  "invoke this Init w = init this w"
| "invoke this SetupEventListeners w = setupEventListeners this w"
| "invoke this SetupTouchEvents w = setupTouchEvents this w"
| "invoke this HandleSwipe w = handleSwipe this w"
| "invoke this (ShowSlide index) w = showSlide this index w"
| "invoke this (ChangeSlide direction) w = changeSlide this direction w"
| "invoke this (GoToSlide index) w = goToSlide this index w"
| "invoke this StartAutoAdvance w = startAutoAdvance this w"
| "invoke this StopAutoAdvance w = stopAutoAdvance this w"
| "invoke this Next w = next_slide this w"
| "invoke this Prev w = prev this w"
| "invoke this (GoTo index) w = goTo this index w"
| "invoke this Destroy w = destroy this w"

text \<open>
  One thing happening on the page: a construction \<^verbatim>\<open>new Carousel(selector, options)\<close>, a
  registration \<^verbatim>\<open>globalCarousels.set(id, carousel)\<close>, an event reaching a target, a timer
  firing, a method call, or a call of a legacy function. The bootstrap routine that runs on
  \<^verbatim>\<open>DOMContentLoaded\<close> is a sequence of constructions and registrations. A caller can only
  hold a reference that a construction returned, so a call or registration with any other
  reference does not occur (the step leaves the world as it is).
\<close>

datatype action =
    Construct string overrides
  | Register string ref
  | Event event_target event
  | Timer nat
  | Call ref method_call
  | Legacy_changeSlide int "string option"
  | Legacy_currentSlide int "string option"

fun step :: "action \<Rightarrow> world \<Rightarrow> world" where
  "step (Construct containerSelector opts) w = snd (Carousel containerSelector opts w)"
| "step (Register carouselId r) w =
     (if r < nextRef w then w\<lparr>globalCarousels := Map_set carouselId r (globalCarousels w)\<rparr> else w)"
| "step (Event tgt e) w = dispatchEvent tgt e w"
| "step (Timer h) w = interval_fires h w"
| "step (Call this m) w = (if this < nextRef w then invoke this m w else w)"
| "step (Legacy_changeSlide direction carouselId) w = global_changeSlide direction carouselId w"
| "step (Legacy_currentSlide index carouselId) w = currentSlide index carouselId w"

text \<open>The page before the script has created anything.\<close>

definition nothing_created :: "world \<Rightarrow> bool" where
  "nothing_created w \<longleftrightarrow>
     nextRef w = 0 \<and> intervals w = [] \<and> listeners w = [] \<and> globalCarousels w = []"

subsection \<open>Bookkeeping of timers and references\<close>

text \<open>
  Every live timer has a positive handle that was handed out, no two live timers share a
  handle, and the instance a timer belongs to exists and holds that timer's handle in
  \<^verbatim>\<open>autoAdvanceInterval\<close>.
\<close>

definition timers_tracked :: "world \<Rightarrow> bool" where
  "timers_tracked w \<longleftrightarrow>
     distinct (map handle (intervals w)) \<and>
     list_all (\<lambda>t. 0 < handle t \<and> handle t \<le> lastHandle w \<and> callback_this t < nextRef w \<and>
                    autoAdvanceInterval (heap w (callback_this t)) = Some (handle t))
              (intervals w)"

fun handler_this :: "handler \<Rightarrow> ref" where
  "handler_this (Prev_click this) = this"
| "handler_this (Next_click this) = this"
| "handler_this (Indicator_click this index) = this"
| "handler_this (Arrow_keys this) = this"
| "handler_this (Hover_enter this) = this"
| "handler_this (Hover_leave this) = this"
| "handler_this (Touch_begin this) = this"
| "handler_this (Touch_finish this) = this"

text \<open>Every reference held by a listener or by the registry is one a construction returned.\<close>

definition refs_allocated :: "world \<Rightarrow> bool" where
  "refs_allocated w \<longleftrightarrow>
     list_all (\<lambda>l. handler_this (on_handler l) < nextRef w) (listeners w) \<and>
     list_all (\<lambda>kv. snd kv < nextRef w) (globalCarousels w)"

definition consistent :: "world \<Rightarrow> bool" where
  "consistent w \<longleftrightarrow> timers_tracked w \<and> refs_allocated w"

section \<open>What the methods leave alone\<close>

lemma fold_classList_remove:
  "fold (\<lambda>e. classList_remove e tok) xs w =
     w\<lparr>classList := (\<lambda>e. if e \<in> set xs then removeAll tok (classList w e) else classList w e)\<rparr>"
proof (induction xs arbitrary: w)
  case Nil
  show ?case by simp
next
  case (Cons x xs)
  have "(\<lambda>e. if e \<in> set xs then removeAll tok (classList (classList_remove x tok w) e)
              else classList (classList_remove x tok w) e) =
        (\<lambda>e. if e \<in> set (x # xs) then removeAll tok (classList w e) else classList w e)"
    by (auto simp: classList_remove_def fun_eq_iff)
  then show ?case
    by (simp add: Cons.IH) (simp add: classList_remove_def)
qed

text \<open>Rendering touches class lists only.\<close>

lemma showSlide_eq:
  "showSlide this index w = w\<lparr>classList := classList (showSlide this index w)\<rparr>"
  by (simp add: showSlide_def fold_classList_remove classList_add_def Let_def split: option.splits)

lemma showSlide_frame [simp]:
  "heap (showSlide this index w) = heap w"
  "page (showSlide this index w) = page w"
  "nextRef (showSlide this index w) = nextRef w"
  "intervals (showSlide this index w) = intervals w"
  "lastHandle (showSlide this index w) = lastHandle w"
  "listeners (showSlide this index w) = listeners w"
  "console (showSlide this index w) = console w"
  "globalCarousels (showSlide this index w) = globalCarousels w"
  by (subst showSlide_eq, simp)+

text \<open>Stopping and starting the timer change no field of any instance but the handle.\<close>

lemma stop_frame [simp]:
  "container (heap (stopAutoAdvance this w) a) = container (heap w a)"
  "options (heap (stopAutoAdvance this w) a) = options (heap w a)"
  "currentSlideIndex (heap (stopAutoAdvance this w) a) = currentSlideIndex (heap w a)"
  "slides (heap (stopAutoAdvance this w) a) = slides (heap w a)"
  "indicators (heap (stopAutoAdvance this w) a) = indicators (heap w a)"
  "totalSlides (heap (stopAutoAdvance this w) a) = totalSlides (heap w a)"
  "touchStartX (heap (stopAutoAdvance this w) a) = touchStartX (heap w a)"
  "touchEndX (heap (stopAutoAdvance this w) a) = touchEndX (heap w a)"
  by (simp_all add: stopAutoAdvance_def update_this_def clearInterval_def split: option.splits)

lemma start_frame [simp]:
  "container (heap (startAutoAdvance this w) a) = container (heap w a)"
  "options (heap (startAutoAdvance this w) a) = options (heap w a)"
  "currentSlideIndex (heap (startAutoAdvance this w) a) = currentSlideIndex (heap w a)"
  "slides (heap (startAutoAdvance this w) a) = slides (heap w a)"
  "indicators (heap (startAutoAdvance this w) a) = indicators (heap w a)"
  "totalSlides (heap (startAutoAdvance this w) a) = totalSlides (heap w a)"
  "touchStartX (heap (startAutoAdvance this w) a) = touchStartX (heap w a)"
  "touchEndX (heap (startAutoAdvance this w) a) = touchEndX (heap w a)"
  by (simp_all add: startAutoAdvance_def setInterval_def update_this_def Let_def)

section \<open>Relative transitions\<close>

text \<open>The index a relative transition leaves behind, in both boundary policies.\<close>

lemma changeSlide_index:
  "currentSlideIndex (heap (changeSlide this d w) this) =
     (let i = currentSlideIndex (heap w this) + d; T = totalSlides (heap w this)
      in if loop (options (heap w this)) then (if i \<ge> T then 0 else if i < 0 then T - 1 else i)
         else max 0 (min i (T - 1)))"
  by (simp add: changeSlide_def Let_def update_this_def)

lemma changeSlide_frame [simp]:
  "container (heap (changeSlide this d w) a) = container (heap w a)"
  "options (heap (changeSlide this d w) a) = options (heap w a)"
  "slides (heap (changeSlide this d w) a) = slides (heap w a)"
  "indicators (heap (changeSlide this d w) a) = indicators (heap w a)"
  "totalSlides (heap (changeSlide this d w) a) = totalSlides (heap w a)"
  "touchStartX (heap (changeSlide this d w) a) = touchStartX (heap w a)"
  "touchEndX (heap (changeSlide this d w) a) = touchEndX (heap w a)"
  by (simp_all add: changeSlide_def Let_def update_this_def)

lemma fold_changeSlide_frame [simp]:
  "options (heap (fold (changeSlide this) ds w) a) = options (heap w a)"
  "totalSlides (heap (fold (changeSlide this) ds w) a) = totalSlides (heap w a)"
  by (induction ds arbitrary: w) simp_all

lemma funpow_changeSlide_frame [simp]:
  "options (heap ((changeSlide this d ^^ n) w) a) = options (heap w a)"
  "totalSlides (heap ((changeSlide this d ^^ n) w) a) = totalSlides (heap w a)"
  by (induction n) simp_all

lemma loop_run_in_range:
  assumes "loop (options (heap w this))" and "0 < totalSlides (heap w this)"
    and "0 \<le> currentSlideIndex (heap w this)"
    and "currentSlideIndex (heap w this) < totalSlides (heap w this)"
  shows "0 \<le> currentSlideIndex (heap (fold (changeSlide this) ds w) this) \<and>
         currentSlideIndex (heap (fold (changeSlide this) ds w) this) < totalSlides (heap w this)"
  using assms
proof (induction ds arbitrary: w)
  case Nil
  then show ?case by simp
next
  case (Cons d ds)
  have "0 \<le> currentSlideIndex (heap (changeSlide this d w) this) \<and>
        currentSlideIndex (heap (changeSlide this d w) this) < totalSlides (heap w this)"
    using Cons.prems by (simp add: changeSlide_index Let_def)
  with Cons.IH [of "changeSlide this d w"] Cons.prems show ?case by simp
qed

lemma example_fields [simp]:
  "options (heap (running_page lp auto i) r) =
     \<lparr>autoAdvance = auto, autoAdvanceTime = 6000, enableKeyboard = True, enableTouch = True,
      loop = lp, startSlide = 0\<rparr>"
  "currentSlideIndex (heap (running_page lp auto i) r) = i"
  "totalSlides (heap (running_page lp auto i) r) = 3"
  "slides (heap (running_page lp auto i) r) = [1, 2, 3]"
  "indicators (heap (running_page lp auto i) r) = [4, 5, 6]"
  by (simp_all add: running_page_def three_slides_def)

text \<open>
  \<^bold>\<open>C1.\<close> In loop mode, starting from an index in \<open>[0, totalSlides - 1]\<close> with
  \<open>totalSlides > 0\<close>, the index is in \<open>[0, totalSlides - 1]\<close> after every step of every sequence
  \<open>ds\<close> of relative transitions, and step \<open>n\<close> wraps: an index that reaches \<open>totalSlides\<close>
  becomes \<open>0\<close>, an index below \<open>0\<close> becomes \<open>totalSlides - 1\<close>. The state after \<open>n\<close> steps is
  \<open>fold (changeSlide this) (take n ds) w\<close>. Nothing is required of the directions, so the
  statement covers the unit directions in particular.
\<close>

theorem loop_mode_stays_in_range:
  assumes "loop (options (heap w this))" and "0 < totalSlides (heap w this)"
    and "0 \<le> currentSlideIndex (heap w this)"
    and "currentSlideIndex (heap w this) < totalSlides (heap w this)"
  shows "\<forall>n. 0 \<le> currentSlideIndex (heap (fold (changeSlide this) (take n ds) w) this) \<and>
             currentSlideIndex (heap (fold (changeSlide this) (take n ds) w) this)
               \<le> totalSlides (heap (fold (changeSlide this) (take n ds) w) this) - 1 \<and>
             (n < length ds \<longrightarrow>
                currentSlideIndex (heap (fold (changeSlide this) (take (Suc n) ds) w) this) =
                  (let i = currentSlideIndex (heap (fold (changeSlide this) (take n ds) w) this) + ds ! n
                   in if i \<ge> totalSlides (heap w this) then 0
                      else if i < 0 then totalSlides (heap w this) - 1
                      else i))"
proof
  fix n
  let ?w = "fold (changeSlide this) (take n ds) w"
  have range: "0 \<le> currentSlideIndex (heap ?w this) \<and>
               currentSlideIndex (heap ?w this) < totalSlides (heap w this)"
    using assms by (rule loop_run_in_range)
  have step: "currentSlideIndex (heap (fold (changeSlide this) (take (Suc n) ds) w) this) =
                  (let i = currentSlideIndex (heap ?w this) + ds ! n
                   in if i \<ge> totalSlides (heap w this) then 0
                      else if i < 0 then totalSlides (heap w this) - 1
                      else i)" if "n < length ds"
    using that assms(1) by (simp add: take_Suc_conv_app_nth changeSlide_index Let_def)
  from range step show "0 \<le> currentSlideIndex (heap ?w this) \<and>
             currentSlideIndex (heap ?w this) \<le> totalSlides (heap ?w this) - 1 \<and>
             (n < length ds \<longrightarrow>
                currentSlideIndex (heap (fold (changeSlide this) (take (Suc n) ds) w) this) =
                  (let i = currentSlideIndex (heap ?w this) + ds ! n
                   in if i \<ge> totalSlides (heap w this) then 0
                      else if i < 0 then totalSlides (heap w this) - 1
                      else i))"
    by simp
qed

text \<open>On the example page, three steps forward from slide 0 reach 1, 2 and wrap to 0; a step
  back from there wraps to 2.\<close>

theorem loop_mode_stays_in_range_witness:
  "loop (options (heap (running_page True True 0) 0)) \<and>
   0 < totalSlides (heap (running_page True True 0) 0) \<and>
   currentSlideIndex (heap (running_page True True 0) 0) = 0 \<and>
   currentSlideIndex (heap (fold (changeSlide 0) [1] (running_page True True 0)) 0) = 1 \<and>
   currentSlideIndex (heap (fold (changeSlide 0) [1, 1] (running_page True True 0)) 0) = 2 \<and>
   currentSlideIndex (heap (fold (changeSlide 0) [1, 1, 1] (running_page True True 0)) 0) = 0 \<and>
   currentSlideIndex (heap (fold (changeSlide 0) [1, 1, 1, - 1] (running_page True True 0)) 0) = 2"
proof -
  let ?w = "running_page True True 0"
  let ?ds = "[1, 1, 1, - 1] :: int list"
  have h: "loop (options (heap ?w 0))" "0 < totalSlides (heap ?w 0)"
    "0 \<le> currentSlideIndex (heap ?w 0)" "currentSlideIndex (heap ?w 0) < totalSlides (heap ?w 0)"
    by simp_all
  note run = loop_mode_stays_in_range [OF h, of ?ds]
  have s0: "take 0 ?ds = []" and s1: "take (Suc 0) ?ds = [1]" and s2: "take (Suc (Suc 0)) ?ds = [1, 1]"
    and s3: "take (Suc (Suc (Suc 0))) ?ds = [1, 1, 1]"
    and s4: "take (Suc (Suc (Suc (Suc 0)))) ?ds = ?ds"
    by simp_all
  have i1: "currentSlideIndex (heap (fold (changeSlide 0) [1] ?w) 0) = 1"
    using run [THEN spec, of 0] unfolding s0 s1 by (simp add: Let_def)
  have i2: "currentSlideIndex (heap (fold (changeSlide 0) [1, 1] ?w) 0) = 2"
    using run [THEN spec, of "Suc 0"] i1 unfolding s1 s2 by (simp add: Let_def)
  have i3: "currentSlideIndex (heap (fold (changeSlide 0) [1, 1, 1] ?w) 0) = 0"
    using run [THEN spec, of "Suc (Suc 0)"] i2 unfolding s2 s3 by (simp add: Let_def)
  have i4: "currentSlideIndex (heap (fold (changeSlide 0) ?ds ?w) 0) = 2"
    using run [THEN spec, of "Suc (Suc (Suc 0))"] i3 unfolding s3 s4 by (simp add: Let_def)
  from h i1 i2 i3 i4 show ?thesis by simp
qed

text \<open>
  \<^bold>\<open>C10.\<close> One relative transition re-establishes the bounds from any prior state: for every
  integer direction and every integer prior index, on an instance with \<open>totalSlides \<ge> 1\<close>, the
  index afterwards lies in \<open>[0, totalSlides - 1]\<close>, in loop mode and in clamp mode alike.
\<close>

theorem changeSlide_restores_bounds:
  assumes "1 \<le> totalSlides (heap w this)"
  shows "0 \<le> currentSlideIndex (heap (changeSlide this direction w) this) \<and>
         currentSlideIndex (heap (changeSlide this direction w) this)
           \<le> totalSlides (heap (changeSlide this direction w) this) - 1"
  using assms by (simp add: changeSlide_index Let_def)

text \<open>From the out-of-range index 7, a step of \<open>- 2\<close> (to 5) in loop mode and a step of \<open>- 9\<close>
  (to \<open>- 2\<close>) in clamp mode both end inside \<open>[0, 2]\<close>.\<close>

theorem changeSlide_restores_bounds_witness:
  "1 \<le> totalSlides (heap (running_page True True 7) 0) \<and>
   0 \<le> currentSlideIndex (heap (changeSlide 0 (- 2) (running_page True True 7)) 0) \<and>
   currentSlideIndex (heap (changeSlide 0 (- 2) (running_page True True 7)) 0) \<le> 2 \<and>
   1 \<le> totalSlides (heap (running_page False True 7) 0) \<and>
   0 \<le> currentSlideIndex (heap (changeSlide 0 (- 9) (running_page False True 7)) 0) \<and>
   currentSlideIndex (heap (changeSlide 0 (- 9) (running_page False True 7)) 0) \<le> 2"
proof -
  have a: "1 \<le> totalSlides (heap (running_page True True 7) 0)"
    and b: "1 \<le> totalSlides (heap (running_page False True 7) 0)"
    by simp_all
  from changeSlide_restores_bounds [OF a, of "- 2"] changeSlide_restores_bounds [OF b, of "- 9"] a b
  show ?thesis by simp
qed

lemma clamp_backward:
  assumes "\<not> loop (options (heap w this))" and "0 < totalSlides (heap w this)"
    and "currentSlideIndex (heap w this) = 0"
  shows "currentSlideIndex (heap ((changeSlide this (- 1) ^^ n) w) this) = 0"
proof (induction n)
  case 0
  show ?case using assms by simp
next
  case (Suc n)
  then show ?case using assms by (simp add: changeSlide_index Let_def)
qed

lemma clamp_forward:
  assumes "\<not> loop (options (heap w this))" and "0 < totalSlides (heap w this)"
    and "currentSlideIndex (heap w this) = totalSlides (heap w this) - 1"
  shows "currentSlideIndex (heap ((changeSlide this 1 ^^ n) w) this) = totalSlides (heap w this) - 1"
proof (induction n)
  case 0
  show ?case using assms by simp
next
  case (Suc n)
  then show ?case using assms by (simp add: changeSlide_index Let_def)
qed

text \<open>
  \<^bold>\<open>C2.\<close> In clamp mode (\<open>loop = false\<close>) with \<open>totalSlides > 0\<close>: from index \<open>0\<close>, any number \<open>n\<close>
  of backward transitions leaves the index at \<open>0\<close>; from index \<open>totalSlides - 1\<close>, any number of
  forward transitions leaves it at \<open>totalSlides - 1\<close>; and every transition saturates the
  index to \<open>[0, totalSlides - 1]\<close>.
\<close>

theorem clamp_mode_saturates:
  assumes "\<not> loop (options (heap w this))" and "0 < totalSlides (heap w this)"
  shows "(currentSlideIndex (heap w this) = 0 \<longrightarrow>
            (\<forall>n. currentSlideIndex (heap ((changeSlide this (- 1) ^^ n) w) this) = 0)) \<and>
         (currentSlideIndex (heap w this) = totalSlides (heap w this) - 1 \<longrightarrow>
            (\<forall>n. currentSlideIndex (heap ((changeSlide this 1 ^^ n) w) this)
                   = totalSlides (heap w this) - 1)) \<and>
         (\<forall>d. currentSlideIndex (heap (changeSlide this d w) this)
                 = max 0 (min (currentSlideIndex (heap w this) + d) (totalSlides (heap w this) - 1)) \<and>
               0 \<le> currentSlideIndex (heap (changeSlide this d w) this) \<and>
               currentSlideIndex (heap (changeSlide this d w) this) \<le> totalSlides (heap w this) - 1)"
  using assms clamp_backward [OF assms] clamp_forward [OF assms]
  by (auto simp: changeSlide_index Let_def)

text \<open>Three slides, clamp mode: three steps back from slide 0 stay at 0, three steps forward
  from slide 2 stay at 2, and one step forward from slide 0 reaches 1.\<close>

theorem clamp_mode_saturates_witness:
  "\<not> loop (options (heap (running_page False True 0) 0)) \<and>
   0 < totalSlides (heap (running_page False True 0) 0) \<and>
   currentSlideIndex (heap ((changeSlide 0 (- 1) ^^ 3) (running_page False True 0)) 0) = 0 \<and>
   currentSlideIndex (heap ((changeSlide 0 1 ^^ 3) (running_page False True 2)) 0) = 2 \<and>
   currentSlideIndex (heap (changeSlide 0 1 (running_page False True 0)) 0) = 1"
proof -
  have a: "\<not> loop (options (heap (running_page False True 0) 0))"
      "0 < totalSlides (heap (running_page False True 0) 0)"
    and b: "\<not> loop (options (heap (running_page False True 2) 0))"
      "0 < totalSlides (heap (running_page False True 2) 0)"
    by simp_all
  from clamp_mode_saturates [OF a] clamp_mode_saturates [OF b] a show ?thesis
    by simp
qed

text \<open>
  \<^bold>\<open>C8.\<close> On a carousel with three slides in loop mode that stands at index 0, three calls of
  \<^verbatim>\<open>next()\<close> give the indices 1, 2 and 0.
\<close>

theorem next_three_times:
  assumes "totalSlides (heap w this) = 3" and "loop (options (heap w this))"
    and "currentSlideIndex (heap w this) = 0"
  shows "currentSlideIndex (heap (next_slide this w) this) = 1 \<and>
         currentSlideIndex (heap (next_slide this (next_slide this w)) this) = 2 \<and>
         currentSlideIndex (heap (next_slide this (next_slide this (next_slide this w))) this) = 0"
  using assms by (simp add: next_slide_def changeSlide_index Let_def)

text \<open>The carousel that the constructor builds on the example page with default options.\<close>

lemma example_constructed:
  "fst (Carousel ''.carousel-container:not([data-carousel])'' no_overrides loaded_page) = Initialised 0"
  "heap (snd (Carousel ''.carousel-container:not([data-carousel])'' no_overrides loaded_page)) 0
     = three_slides True True 0 (Some 1)"
  by (simp_all add: Carousel_def loaded_page_def example_page_def no_overrides_def spread_def
      default_options_def init_def Let_def three_slides_def setupEventListeners_def
      setupTouchEvents_def addEventListener_def startAutoAdvance_def stopAutoAdvance_def
      setInterval_def update_this_def)

theorem next_three_times_witness:
  "fst (Carousel ''.carousel-container:not([data-carousel])'' no_overrides loaded_page) = Initialised 0 \<and>
   totalSlides (heap (snd (Carousel ''.carousel-container:not([data-carousel])'' no_overrides loaded_page)) 0) = 3 \<and>
   loop (options (heap (snd (Carousel ''.carousel-container:not([data-carousel])'' no_overrides loaded_page)) 0)) \<and>
   currentSlideIndex (heap (snd (Carousel ''.carousel-container:not([data-carousel])'' no_overrides loaded_page)) 0) = 0 \<and>
   currentSlideIndex (heap (next_slide 0 (snd (Carousel ''.carousel-container:not([data-carousel])'' no_overrides loaded_page))) 0) = 1 \<and>
   currentSlideIndex (heap (next_slide 0 (next_slide 0 (snd (Carousel ''.carousel-container:not([data-carousel])'' no_overrides loaded_page)))) 0) = 2 \<and>
   currentSlideIndex (heap (next_slide 0 (next_slide 0 (next_slide 0 (snd (Carousel ''.carousel-container:not([data-carousel])'' no_overrides loaded_page))))) 0) = 0"
proof -
  let ?w = "snd (Carousel ''.carousel-container:not([data-carousel])'' no_overrides loaded_page)"
  have h: "totalSlides (heap ?w 0) = 3" "loop (options (heap ?w 0))" "currentSlideIndex (heap ?w 0) = 0"
    by (simp_all add: example_constructed three_slides_def)
  from next_three_times [OF h] h example_constructed(1) show ?thesis by simp
qed

section \<open>Rendering and absolute transitions\<close>

lemma item_mem: "item xs index = Some e \<Longrightarrow> e \<in> set xs"
  by (auto simp: item_def split: if_splits)

text \<open>The class list of an element after a render: the token is cleared on every slide and
  indicator, then added at the slide and at the indicator the index selects.\<close>

lemma classList_showSlide:
  "classList (showSlide this index w) e =
     (let c = heap w this;
          cleared = (if e \<in> set (slides c) \<or> e \<in> set (indicators c)
                     then removeAll ''active'' (classList w e) else classList w e);
          shown = (if item (slides c) index = Some e \<and> ''active'' \<notin> set cleared
                   then cleared @ [''active''] else cleared)
      in if item (indicators c) index = Some e \<and> ''active'' \<notin> set shown
         then shown @ [''active''] else shown)"
proof (cases "item (slides (heap w this)) index")
  case None
  show ?thesis
  proof (cases "item (indicators (heap w this)) index")
    case n: None
    show ?thesis
      by (simp add: showSlide_def fold_classList_remove Let_def None n)
  next
    case (Some i)
    show ?thesis
      using item_mem [OF Some]
      by (simp add: showSlide_def fold_classList_remove classList_add_def Let_def None Some)
  qed
next
  case (Some s)
  show ?thesis
  proof (cases "item (indicators (heap w this)) index")
    case None
    show ?thesis
      using item_mem [OF Some]
      by (simp add: showSlide_def fold_classList_remove classList_add_def Let_def None Some)
  next
    case i: (Some i)
    show ?thesis
      using item_mem [OF Some] item_mem [OF i]
      by (simp add: showSlide_def fold_classList_remove classList_add_def Let_def i Some)
  qed
qed

lemma classList_stop [simp]: "classList (stopAutoAdvance this w) = classList w"
  by (simp add: stopAutoAdvance_def update_this_def clearInterval_def split: option.splits)

lemma classList_start [simp]: "classList (startAutoAdvance this w) = classList w"
  by (simp add: startAutoAdvance_def setInterval_def update_this_def Let_def)

lemma showSlide_heap_irrelevant:
  "slides (heap w' this) = slides (heap w this) \<Longrightarrow> indicators (heap w' this) = indicators (heap w this)
   \<Longrightarrow> classList w' = classList w
   \<Longrightarrow> classList (showSlide this index w') = classList (showSlide this index w)"
  by (rule ext) (simp add: classList_showSlide Let_def)

text \<open>
  \<^bold>\<open>C3.\<close> An absolute transition to an index below \<open>0\<close> or at or above \<open>totalSlides\<close> returns the
  world as it was: no field of any instance, no class list, no timer, no listener and no
  console line changes (the model has no error outcome, since no statement of the method can
  throw). For an index in \<open>[0, totalSlides - 1]\<close> the index is set and the class lists are
  those a render of that index produces.
\<close>

theorem goToSlide_range_check:
  "(index < 0 \<or> index \<ge> totalSlides (heap w this) \<longrightarrow> goToSlide this index w = w) \<and>
   (0 \<le> index \<and> index < totalSlides (heap w this) \<longrightarrow>
      currentSlideIndex (heap (goToSlide this index w) this) = index \<and>
      classList (goToSlide this index w) = classList (showSlide this index w))"
  by (auto simp: goToSlide_def Let_def update_this_def intro!: showSlide_heap_irrelevant)

theorem goToSlide_range_check_witness:
  "totalSlides (heap (running_page True True 0) 0) = 3 \<and>
   goToSlide 0 3 (running_page True True 0) = running_page True True 0 \<and>
   goToSlide 0 (- 1) (running_page True True 0) = running_page True True 0 \<and>
   currentSlideIndex (heap (goToSlide 0 2 (running_page True True 0)) 0) = 2 \<and>
   classList (goToSlide 0 2 (running_page True True 0)) = classList (showSlide 0 2 (running_page True True 0))"
  using goToSlide_range_check [where index = 3 and w = "running_page True True 0" and this = 0]
    goToSlide_range_check [where index = "- 1" and w = "running_page True True 0" and this = 0]
    goToSlide_range_check [where index = 2 and w = "running_page True True 0" and this = 0]
  by simp

section \<open>Gestures\<close>

text \<open>
  \<^bold>\<open>C6.\<close> The swipe handler computes \<open>diff = touchStartX - touchEndX\<close>. With \<open>\<bar>diff\<bar> \<le> 50\<close> it
  does nothing; with \<open>diff > 50\<close> it is exactly one forward relative transition; with
  \<open>diff < - 50\<close> it is exactly one backward relative transition. The last conjunct is the whole
  gesture: the \<^verbatim>\<open>touchstart\<close> listener records \<open>x0\<close>, the \<^verbatim>\<open>touchend\<close> listener records \<open>x1\<close>
  and calls the swipe handler.
\<close>

theorem handleSwipe_threshold:
  "(\<bar>touchStartX (heap w this) - touchEndX (heap w this)\<bar> \<le> 50 \<longrightarrow> handleSwipe this w = w) \<and>
   (touchStartX (heap w this) - touchEndX (heap w this) > 50 \<longrightarrow>
      handleSwipe this w = changeSlide this 1 w) \<and>
   (touchStartX (heap w this) - touchEndX (heap w this) < - 50 \<longrightarrow>
      handleSwipe this w = changeSlide this (- 1) w) \<and>
   handle_event (Touch_finish this) (Touchend x1) (handle_event (Touch_begin this) (Touchstart x0) w) =
     (let w' = update_this this (\<lambda>c. c\<lparr>touchEndX := x1\<rparr>)
                 (update_this this (\<lambda>c. c\<lparr>touchStartX := x0\<rparr>) w)
      in if \<bar>x0 - x1\<bar> \<le> 50 then w'
         else if x0 - x1 > 50 then changeSlide this 1 w'
         else changeSlide this (- 1) w')"
  by (auto simp: handleSwipe_def Let_def update_this_def)

text \<open>Differences of 49, 51 and \<open>- 51\<close>: nothing, one step forward, one step back.\<close>

theorem handleSwipe_threshold_witness:
  "handleSwipe 0 (update_this 0 (\<lambda>c. c\<lparr>touchStartX := 100, touchEndX := 51\<rparr>) (running_page True True 0))
     = update_this 0 (\<lambda>c. c\<lparr>touchStartX := 100, touchEndX := 51\<rparr>) (running_page True True 0) \<and>
   handleSwipe 0 (update_this 0 (\<lambda>c. c\<lparr>touchStartX := 100, touchEndX := 49\<rparr>) (running_page True True 0))
     = changeSlide 0 1 (update_this 0 (\<lambda>c. c\<lparr>touchStartX := 100, touchEndX := 49\<rparr>) (running_page True True 0)) \<and>
   handleSwipe 0 (update_this 0 (\<lambda>c. c\<lparr>touchStartX := 100, touchEndX := 151\<rparr>) (running_page True True 0))
     = changeSlide 0 (- 1) (update_this 0 (\<lambda>c. c\<lparr>touchStartX := 100, touchEndX := 151\<rparr>) (running_page True True 0))"
proof -
  let ?w = "\<lambda>x1. update_this 0 (\<lambda>c. c\<lparr>touchStartX := 100, touchEndX := x1\<rparr>) (running_page True True 0)"
  have d: "touchStartX (heap (?w x1) 0) - touchEndX (heap (?w x1) 0) = 100 - x1" for x1
    by (simp add: update_this_def running_page_def three_slides_def)
  from handleSwipe_threshold [of "?w 51" 0] handleSwipe_threshold [of "?w 49" 0]
    handleSwipe_threshold [of "?w 151" 0]
  show ?thesis unfolding d by simp
qed

section \<open>The legacy functions\<close>

text \<open>
  \<^bold>\<open>C7.\<close> When the identifier (\<^verbatim>\<open>'default'\<close> if omitted) is registered for instance \<open>r\<close>, the
  legacy absolute-index function is \<open>r\<close>'s absolute transition to \<open>index - 1\<close> (and the legacy
  relative function is \<open>r\<close>'s relative transition). When it is not registered, both legacy
  functions return the world as it was.
\<close>

theorem legacy_lookup:
  "(Map_get (globalCarousels w) (case carouselId of None \<Rightarrow> ''default'' | Some i \<Rightarrow> i) = Some r \<longrightarrow>
      currentSlide index carouselId w = goToSlide r (index - 1) w \<and>
      global_changeSlide direction carouselId w = changeSlide r direction w) \<and>
   (Map_get (globalCarousels w) (case carouselId of None \<Rightarrow> ''default'' | Some i \<Rightarrow> i) = None \<longrightarrow>
      currentSlide index carouselId w = w \<and> global_changeSlide direction carouselId w = w)"
  by (simp add: currentSlide_def global_changeSlide_def)

theorem legacy_lookup_witness:
  "Map_get (globalCarousels (running_page True True 0)) ''default'' = Some 0 \<and>
   currentSlide 3 None (running_page True True 0) = goToSlide 0 2 (running_page True True 0) \<and>
   Map_get (globalCarousels (running_page True True 0)) ''gallery'' = None \<and>
   currentSlide 3 (Some ''gallery'') (running_page True True 0) = running_page True True 0 \<and>
   global_changeSlide 1 (Some ''gallery'') (running_page True True 0) = running_page True True 0"
proof -
  have a: "Map_get (globalCarousels (running_page True True 0)) (case None of None \<Rightarrow> ''default'' | Some i \<Rightarrow> i) = Some 0"
    and b: "Map_get (globalCarousels (running_page True True 0)) (case Some ''gallery'' of None \<Rightarrow> ''default'' | Some i \<Rightarrow> i) = None"
    by (simp_all add: Map_get_def running_page_def)
  from legacy_lookup [of "running_page True True 0" None 0 3]
    legacy_lookup [of "running_page True True 0" "Some ''gallery''" 0 3 1] a b
  show ?thesis by simp
qed

section \<open>Construction\<close>

lemma fold_addEventListener:
  "fold (\<lambda>(x, i). addEventListener (f x i) ty (g x i)) xs w =
     w\<lparr>listeners := listeners w @
          map (\<lambda>(x, i). \<lparr>on_target = f x i, on_type = ty, on_handler = g x i\<rparr>) xs\<rparr>"
proof (induction xs arbitrary: w)
  case Nil
  show ?case by simp
next
  case (Cons p ps)
  obtain x i where p: "p = (x, i)" by (cases p)
  show ?case
    by (simp add: Cons.IH p) (simp add: addEventListener_def)
qed

text \<open>Registering listeners changes the list of listeners and nothing else.\<close>

lemma addEventListener_frame [simp]:
  "heap (addEventListener tgt ty h w) = heap w"
  "page (addEventListener tgt ty h w) = page w"
  "classList (addEventListener tgt ty h w) = classList w"
  "nextRef (addEventListener tgt ty h w) = nextRef w"
  "intervals (addEventListener tgt ty h w) = intervals w"
  "lastHandle (addEventListener tgt ty h w) = lastHandle w"
  "console (addEventListener tgt ty h w) = console w"
  "globalCarousels (addEventListener tgt ty h w) = globalCarousels w"
  by (simp_all add: addEventListener_def)

lemma fold_addEventListener_frame [simp]:
  "heap (fold (\<lambda>(x, i). addEventListener (f x i) ty (g x i)) xs w) = heap w"
  "page (fold (\<lambda>(x, i). addEventListener (f x i) ty (g x i)) xs w) = page w"
  "classList (fold (\<lambda>(x, i). addEventListener (f x i) ty (g x i)) xs w) = classList w"
  "nextRef (fold (\<lambda>(x, i). addEventListener (f x i) ty (g x i)) xs w) = nextRef w"
  "intervals (fold (\<lambda>(x, i). addEventListener (f x i) ty (g x i)) xs w) = intervals w"
  "lastHandle (fold (\<lambda>(x, i). addEventListener (f x i) ty (g x i)) xs w) = lastHandle w"
  "console (fold (\<lambda>(x, i). addEventListener (f x i) ty (g x i)) xs w) = console w"
  "globalCarousels (fold (\<lambda>(x, i). addEventListener (f x i) ty (g x i)) xs w) = globalCarousels w"
  by (simp_all add: fold_addEventListener)

lemma setupEventListeners_frame [simp]:
  "heap (setupEventListeners this w) = heap w"
  "page (setupEventListeners this w) = page w"
  "classList (setupEventListeners this w) = classList w"
  "nextRef (setupEventListeners this w) = nextRef w"
  "intervals (setupEventListeners this w) = intervals w"
  "lastHandle (setupEventListeners this w) = lastHandle w"
  "console (setupEventListeners this w) = console w"
  "globalCarousels (setupEventListeners this w) = globalCarousels w"
  by (simp_all add: setupEventListeners_def Let_def split: option.splits)

lemma setupTouchEvents_frame [simp]:
  "heap (setupTouchEvents this w) = heap w"
  "page (setupTouchEvents this w) = page w"
  "classList (setupTouchEvents this w) = classList w"
  "nextRef (setupTouchEvents this w) = nextRef w"
  "intervals (setupTouchEvents this w) = intervals w"
  "lastHandle (setupTouchEvents this w) = lastHandle w"
  "console (setupTouchEvents this w) = console w"
  "globalCarousels (setupTouchEvents this w) = globalCarousels w"
  by (simp_all add: setupTouchEvents_def Let_def)

lemma init_frame [simp]:
  "container (heap (init this w) a) = container (heap w a)"
  "options (heap (init this w) a) = options (heap w a)"
  "currentSlideIndex (heap (init this w) a) = currentSlideIndex (heap w a)"
  "slides (heap (init this w) a) = slides (heap w a)"
  "indicators (heap (init this w) a) = indicators (heap w a)"
  "totalSlides (heap (init this w) a) = totalSlides (heap w a)"
  "touchStartX (heap (init this w) a) = touchStartX (heap w a)"
  "touchEndX (heap (init this w) a) = touchEndX (heap w a)"
  by (simp_all add: init_def Let_def)

text \<open>The initial render is a render of the index the constructor assigned.\<close>

lemma classList_init:
  "classList (init this w) = classList (showSlide this (currentSlideIndex (heap w this)) w)"
  by (auto simp: init_def Let_def intro!: showSlide_heap_irrelevant)

text \<open>
  \<^bold>\<open>C9\<close> says that the constructor normalises the starting index, so that the index lies in
  \<open>[0, totalSlides - 1]\<close> after construction whatever \<^verbatim>\<open>startSlide\<close> is. The constructor assigns
  \<^verbatim>\<open>this.options.startSlide\<close> to \<^verbatim>\<open>this.currentSlideIndex\<close> and neither it nor \<^verbatim>\<open>init\<close> changes the
  index afterwards: on the example page (three slides) with \<^verbatim>\<open>startSlide: 5\<close> the construction
  succeeds and leaves the index at 5.
\<close>

theorem constructor_startSlide_counterexample:
  "fst (Carousel ''.carousel-container:not([data-carousel])''
          (no_overrides\<lparr>given_startSlide := Some 5\<rparr>) loaded_page) = Initialised 0 \<and>
   totalSlides (heap (snd (Carousel ''.carousel-container:not([data-carousel])''
          (no_overrides\<lparr>given_startSlide := Some 5\<rparr>) loaded_page)) 0) = 3 \<and>
   currentSlideIndex (heap (snd (Carousel ''.carousel-container:not([data-carousel])''
          (no_overrides\<lparr>given_startSlide := Some 5\<rparr>) loaded_page)) 0) = 5"
  by (simp add: Carousel_def loaded_page_def example_page_def Let_def spread_def
      default_options_def no_overrides_def)

text \<open>What a successful construction returns.\<close>

lemma Carousel_Initialised:
  assumes "Carousel containerSelector opts w = (Initialised this, w')"
  shows "this = nextRef w"
    and "currentSlideIndex (heap w' this) = startSlide (spread default_options opts)"
    and "0 < totalSlides (heap w' this)"
proof -
  obtain cont where c: "document_querySelector (page w) containerSelector = Some cont"
    using assms by (cases "document_querySelector (page w) containerSelector") (simp_all add: Carousel_def)
  have n: "querySelectorAll (page w) cont ''.carousel-slide'' \<noteq> []"
    using assms by (auto simp add: Carousel_def c Let_def split: if_splits)
  from assms n show "this = nextRef w"
    by (simp add: Carousel_def c Let_def)
  from assms have w': "w' = snd (Carousel containerSelector opts w)"
    by simp
  show "currentSlideIndex (heap w' this) = startSlide (spread default_options opts)"
    unfolding w' \<open>this = nextRef w\<close> using n by (simp add: Carousel_def c Let_def)
  show "0 < totalSlides (heap w' this)"
    unfolding w' \<open>this = nextRef w\<close> using n by (simp add: Carousel_def c Let_def)
qed

text \<open>
  \<^bold>\<open>C9, as the code has it.\<close> When the construction succeeds (container resolved, at least
  one slide), the index after construction is the configured \<^verbatim>\<open>startSlide\<close> (0 when it is not
  overridden) and \<open>totalSlides > 0\<close>; the index lies in \<open>[0, totalSlides - 1]\<close> when
  \<^verbatim>\<open>startSlide\<close> does.
\<close>

theorem constructor_keeps_startSlide:
  assumes "Carousel containerSelector opts w = (Initialised this, w')"
  shows "currentSlideIndex (heap w' this) = (case given_startSlide opts of Some s \<Rightarrow> s | None \<Rightarrow> 0) \<and>
         0 < totalSlides (heap w' this) \<and>
         (0 \<le> (case given_startSlide opts of Some s \<Rightarrow> s | None \<Rightarrow> 0) \<and>
          (case given_startSlide opts of Some s \<Rightarrow> s | None \<Rightarrow> 0) < totalSlides (heap w' this) \<longrightarrow>
            0 \<le> currentSlideIndex (heap w' this) \<and>
            currentSlideIndex (heap w' this) \<le> totalSlides (heap w' this) - 1)"
proof -
  have "startSlide (spread default_options opts) = (case given_startSlide opts of Some s \<Rightarrow> s | None \<Rightarrow> 0)"
    by (simp add: spread_def default_options_def split: option.splits)
  with Carousel_Initialised(2,3) [OF assms] show ?thesis by simp
qed

theorem constructor_keeps_startSlide_witness:
  "Carousel ''.carousel-container:not([data-carousel])'' (no_overrides\<lparr>given_startSlide := Some 2\<rparr>) loaded_page
     = (Initialised 0, snd (Carousel ''.carousel-container:not([data-carousel])''
                              (no_overrides\<lparr>given_startSlide := Some 2\<rparr>) loaded_page)) \<and>
   currentSlideIndex (heap (snd (Carousel ''.carousel-container:not([data-carousel])''
                              (no_overrides\<lparr>given_startSlide := Some 2\<rparr>) loaded_page)) 0) = 2 \<and>
   totalSlides (heap (snd (Carousel ''.carousel-container:not([data-carousel])''
                              (no_overrides\<lparr>given_startSlide := Some 2\<rparr>) loaded_page)) 0) = 3"
proof -
  let ?r = "Carousel ''.carousel-container:not([data-carousel])''
              (no_overrides\<lparr>given_startSlide := Some 2\<rparr>) loaded_page"
  have f: "fst ?r = Initialised 0"
    by (simp add: Carousel_def loaded_page_def example_page_def Let_def)
  then have h: "?r = (Initialised 0, snd ?r)"
    by (simp add: prod_eq_iff)
  have t: "totalSlides (heap (snd ?r) 0) = 3"
    by (simp add: Carousel_def loaded_page_def example_page_def Let_def)
  from constructor_keeps_startSlide [OF h] h t show ?thesis
    by (simp add: no_overrides_def)
qed

section \<open>Active markers after a render\<close>

lemma filter_eq_nth:
  "distinct xs \<Longrightarrow> n < length xs \<Longrightarrow> filter (\<lambda>x. x = xs ! n) xs = [xs ! n]"
proof (induction xs arbitrary: n)
  case Nil
  then show ?case by simp
next
  case (Cons a xs)
  show ?case
  proof (cases n)
    case 0
    have "filter (\<lambda>x. x = a) xs = []"
      using Cons.prems(1) by (auto simp: filter_empty_conv)
    with 0 show ?thesis by simp
  next
    case (Suc m)
    with Cons.prems have m: "m < length xs" and d: "distinct xs" and a: "a \<notin> set xs"
      by simp_all
    from m a have "xs ! m \<noteq> a" by (metis nth_mem)
    with Cons.IH [OF d m] Suc show ?thesis by auto
  qed
qed

lemma filter_item:
  assumes "distinct xs"
  shows "filter (\<lambda>e. item xs index = Some e) xs =
           (if 0 \<le> index \<and> index < int (length xs) then [xs ! nat index] else [])"
proof (cases "0 \<le> index \<and> index < int (length xs)")
  case True
  then have n: "nat index < length xs" by linarith
  have "filter (\<lambda>e. item xs index = Some e) xs = filter (\<lambda>e. e = xs ! nat index) xs"
    using True by (auto simp: item_def intro: filter_cong)
  with filter_eq_nth [OF assms n] True show ?thesis by simp
next
  case False
  then show ?thesis by (auto simp: item_def)
qed

text \<open>Which elements are active after a render.\<close>

lemma is_active_showSlide:
  "is_active (showSlide this index w) e \<longleftrightarrow>
     item (slides (heap w this)) index = Some e \<or> item (indicators (heap w this)) index = Some e \<or>
     (e \<notin> set (slides (heap w this)) \<and> e \<notin> set (indicators (heap w this)) \<and> is_active w e)"
  unfolding is_active_def classList_showSlide Let_def
  by (auto dest: item_mem)

text \<open>
  \<^bold>\<open>C4\<close> says that after a render with any integer index, on an instance with at least one
  slide, exactly one slide is active. \<^verbatim>\<open>showSlide\<close> clears every slide and marks
  \<^verbatim>\<open>this.slides[index]\<close> only if that element exists: on the example page (three slides) a
  render of index 5 leaves no slide active. It also marks \<^verbatim>\<open>this.indicators[index]\<close> whatever
  that element is: if element 2, the second slide, is also the first indicator, a render of
  index 0 leaves the slides 1 and 2 active.
\<close>

theorem showSlide_exactly_one_counterexample:
  "totalSlides (heap (running_page True True 0) 0) = 3 \<and>
   activeSlides 0 (showSlide 0 5 (running_page True True 0)) = [] \<and>
   activeIndicators 0 (showSlide 0 5 (running_page True True 0)) = [] \<and>
   activeSlides 0 (showSlide 0 0
     (update_this 0 (\<lambda>c. c\<lparr>indicators := [2, 5, 6]\<rparr>) (running_page True True 0))) = [1, 2]"
  by (simp add: activeSlides_def activeIndicators_def is_active_showSlide item_def update_this_def)

text \<open>
  \<^bold>\<open>C4, as the code has it.\<close> Let the slide list and the indicator list of the instance have
  no repeated element and no element in common (what \<^verbatim>\<open>querySelectorAll\<close> gives on markup whose
  slides are not indicators), and let \<open>totalSlides\<close> be the number of slides, as the
  constructor sets it. After a render of \<open>index\<close>: if \<open>0 \<le> index < totalSlides\<close> exactly one
  slide is active, the one at \<open>index\<close>, and otherwise no slide is active; if \<open>index\<close> is
  within the indicator list exactly one indicator is active, the one at \<open>index\<close>, and
  otherwise none is.
\<close>

theorem showSlide_marks_at_most_one:
  assumes "distinct (slides (heap w this))" and "distinct (indicators (heap w this))"
    and "set (slides (heap w this)) \<inter> set (indicators (heap w this)) = {}"
    and "totalSlides (heap w this) = int (length (slides (heap w this)))"
  shows "activeSlides this (showSlide this index w) =
           (if 0 \<le> index \<and> index < totalSlides (heap w this)
            then [slides (heap w this) ! nat index] else []) \<and>
         activeIndicators this (showSlide this index w) =
           (if 0 \<le> index \<and> index < int (length (indicators (heap w this)))
            then [indicators (heap w this) ! nat index] else [])"
proof -
  let ?S = "slides (heap w this)" and ?I = "indicators (heap w this)"
  have s: "filter (is_active (showSlide this index w)) ?S = filter (\<lambda>e. item ?S index = Some e) ?S"
    using assms(3) by (intro filter_cong) (auto simp: is_active_showSlide dest: item_mem)
  have i: "filter (is_active (showSlide this index w)) ?I = filter (\<lambda>e. item ?I index = Some e) ?I"
    using assms(3) by (intro filter_cong) (auto simp: is_active_showSlide dest: item_mem)
  show ?thesis
    unfolding activeSlides_def activeIndicators_def
    by (simp add: s i filter_item [OF assms(1)] filter_item [OF assms(2)] assms(4))
qed

text \<open>On the example page a render of index 2 marks slide 3 and indicator 6 and nothing else;
  a render of index \<open>- 1\<close> marks no slide.\<close>

theorem showSlide_marks_at_most_one_witness:
  "distinct (slides (heap (running_page True True 0) 0)) \<and>
   distinct (indicators (heap (running_page True True 0) 0)) \<and>
   set (slides (heap (running_page True True 0) 0)) \<inter> set (indicators (heap (running_page True True 0) 0)) = {} \<and>
   totalSlides (heap (running_page True True 0) 0) = int (length (slides (heap (running_page True True 0) 0))) \<and>
   activeSlides 0 (showSlide 0 2 (running_page True True 0)) = [3] \<and>
   activeIndicators 0 (showSlide 0 2 (running_page True True 0)) = [6] \<and>
   activeSlides 0 (showSlide 0 (- 1) (running_page True True 0)) = []"
proof -
  let ?w = "running_page True True 0"
  have h: "distinct (slides (heap ?w 0))" "distinct (indicators (heap ?w 0))"
    "set (slides (heap ?w 0)) \<inter> set (indicators (heap ?w 0)) = {}"
    "totalSlides (heap ?w 0) = int (length (slides (heap ?w 0)))"
    by simp_all
  from showSlide_marks_at_most_one [OF h, of 2] showSlide_marks_at_most_one [OF h, of "- 1"] h
  show ?thesis by simp
qed

section \<open>Timers\<close>

text \<open>Rendering and assignments to other fields do not touch the timers.\<close>

lemma timers_tracked_classList [simp]: "timers_tracked (w\<lparr>classList := f\<rparr>) = timers_tracked w"
  by (simp add: timers_tracked_def)

lemma timers_of_classList [simp]: "timers_of a (w\<lparr>classList := f\<rparr>) = timers_of a w"
  by (simp add: timers_of_def)

lemma timers_tracked_showSlide [simp]: "timers_tracked (showSlide this index w) = timers_tracked w"
  by (subst showSlide_eq) simp

lemma timers_of_showSlide [simp]: "timers_of a (showSlide this index w) = timers_of a w"
  by (subst showSlide_eq) simp

lemma update_this_frame [simp]:
  "page (update_this this f w) = page w"
  "classList (update_this this f w) = classList w"
  "nextRef (update_this this f w) = nextRef w"
  "intervals (update_this this f w) = intervals w"
  "lastHandle (update_this this f w) = lastHandle w"
  "listeners (update_this this f w) = listeners w"
  "console (update_this this f w) = console w"
  "globalCarousels (update_this this f w) = globalCarousels w"
  by (simp_all add: update_this_def)

lemma heap_update_this: "heap (update_this this f w) a = (if a = this then f (heap w this) else heap w a)"
  by (simp add: update_this_def)

lemma timers_of_update_this [simp]: "timers_of a (update_this this f w) = timers_of a w"
  by (simp add: timers_of_def)

lemma timers_tracked_update_this:
  "autoAdvanceInterval (f (heap w this)) = autoAdvanceInterval (heap w this) \<Longrightarrow>
   timers_tracked (update_this this f w) = timers_tracked w"
  by (auto simp: timers_tracked_def list_all_iff heap_update_this)

lemma stop_world_frame [simp]:
  "page (stopAutoAdvance this w) = page w"
  "nextRef (stopAutoAdvance this w) = nextRef w"
  "lastHandle (stopAutoAdvance this w) = lastHandle w"
  "listeners (stopAutoAdvance this w) = listeners w"
  "console (stopAutoAdvance this w) = console w"
  "globalCarousels (stopAutoAdvance this w) = globalCarousels w"
  by (simp_all add: stopAutoAdvance_def clearInterval_def split: option.splits)

lemma start_world_frame [simp]:
  "page (startAutoAdvance this w) = page w"
  "nextRef (startAutoAdvance this w) = nextRef w"
  "lastHandle (startAutoAdvance this w) = Suc (lastHandle w)"
  "listeners (startAutoAdvance this w) = listeners w"
  "console (startAutoAdvance this w) = console w"
  "globalCarousels (startAutoAdvance this w) = globalCarousels w"
  by (simp_all add: startAutoAdvance_def setInterval_def Let_def)

lemma no_timer_without_handle:
  assumes "timers_tracked w" and "t \<in> set (intervals w)" and "callback_this t = a"
  shows "autoAdvanceInterval (heap w a) = Some (handle t)" and "0 < handle t"
    and "handle t \<le> lastHandle w" and "a < nextRef w"
  using assms by (auto simp: timers_tracked_def list_all_iff)

lemma stop_clears:
  assumes "timers_tracked w"
  shows "timers_tracked (stopAutoAdvance this w)" and "timers_of this (stopAutoAdvance this w) = []"
proof -
  show "timers_tracked (stopAutoAdvance this w)"
  proof (cases "autoAdvanceInterval (heap w this)")
    case None
    with assms show ?thesis by (simp add: stopAutoAdvance_def)
  next
    case (Some h)
    show ?thesis
    proof (cases "h = 0")
      case True
      with Some assms show ?thesis by (simp add: stopAutoAdvance_def)
    next
      case False
      have "callback_this t \<noteq> this" if "t \<in> set (intervals w)" "handle t \<noteq> h" for t
        using no_timer_without_handle(1) [OF assms that(1), of "callback_this t"] that(2) Some by auto
      with assms False Some show ?thesis
        by (auto simp: stopAutoAdvance_def clearInterval_def timers_tracked_def list_all_iff
            heap_update_this distinct_map_filter)
    qed
  qed
  show "timers_of this (stopAutoAdvance this w) = []"
  proof -
    have "callback_this t \<noteq> this" if t: "t \<in> set (intervals (stopAutoAdvance this w))" for t
    proof
      assume c: "callback_this t = this"
      from t have tw: "t \<in> set (intervals w)"
        by (auto simp: stopAutoAdvance_def clearInterval_def split: option.splits if_splits)
      from no_timer_without_handle(1,2) [OF assms tw c] t show False
        by (auto simp: stopAutoAdvance_def clearInterval_def split: option.splits if_splits)
    qed
    then show ?thesis by (auto simp: timers_of_def filter_empty_conv)
  qed
qed

lemma start_schedules_one:
  assumes "timers_tracked w" and "this < nextRef w"
  shows "timers_tracked (startAutoAdvance this w)"
    and "timers_of this (startAutoAdvance this w) = [Suc (lastHandle w)]"
    and "autoAdvanceInterval (heap (startAutoAdvance this w) this) = Some (Suc (lastHandle w))"
proof -
  let ?w1 = "stopAutoAdvance this w"
  note s = stop_clears [OF assms(1), of this]
  have none: "callback_this t \<noteq> this" if "t \<in> set (intervals ?w1)" for t
    using s(2) that by (auto simp: timers_of_def filter_empty_conv)
  have old: "handle t \<le> lastHandle w" if "t \<in> set (intervals ?w1)" for t
    using no_timer_without_handle(3) [OF s(1) that] by simp
  then have fresh: "Suc (lastHandle w) \<notin> handle ` set (intervals ?w1)"
    by force
  show "timers_tracked (startAutoAdvance this w)"
    using s(1) assms(2) none fresh
    by (auto simp: startAutoAdvance_def setInterval_def Let_def timers_tracked_def list_all_iff
        heap_update_this)
  show "timers_of this (startAutoAdvance this w) = [Suc (lastHandle w)]"
    using none
    by (auto simp: startAutoAdvance_def setInterval_def Let_def timers_of_def filter_empty_conv)
  show "autoAdvanceInterval (heap (startAutoAdvance this w) this) = Some (Suc (lastHandle w))"
    by (simp add: startAutoAdvance_def setInterval_def Let_def heap_update_this)
qed

lemma tracked_at_most_one:
  assumes "timers_tracked w"
  shows "length (timers_of a w) \<le> 1"
proof -
  have d: "distinct (timers_of a w)"
    using assms by (simp add: timers_tracked_def timers_of_def distinct_map_filter)
  have "h = h'" if "h \<in> set (timers_of a w)" "h' \<in> set (timers_of a w)" for h h'
  proof -
    from that obtain t t' where t: "t \<in> set (intervals w)" "callback_this t = a" "handle t = h"
      and t': "t' \<in> set (intervals w)" "callback_this t' = a" "handle t' = h'"
      by (auto simp: timers_of_def)
    from no_timer_without_handle(1) [OF assms t(1,2)] no_timer_without_handle(1) [OF assms t'(1,2)]
      t(3) t'(3)
    show ?thesis by simp
  qed
  note same = this
  show ?thesis
  proof (cases "timers_of a w")
    case Nil
    then show ?thesis by simp
  next
    case (Cons x xs)
    show ?thesis
    proof (cases xs)
      case Nil
      with Cons show ?thesis by simp
    next
      case (Cons y ys)
      with \<open>timers_of a w = x # xs\<close> have "x \<in> set (timers_of a w)" "y \<in> set (timers_of a w)" "x \<noteq> y"
        using d by auto
      with same [of x y] show ?thesis by simp
    qed
  qed
qed

lemma timers_tracked_cong:
  "heap w' = heap w \<Longrightarrow> intervals w' = intervals w \<Longrightarrow> lastHandle w' = lastHandle w \<Longrightarrow>
   nextRef w' = nextRef w \<Longrightarrow> timers_tracked w' = timers_tracked w"
  by (simp add: timers_tracked_def)

lemma refs_allocated_cong:
  "listeners w' = listeners w \<Longrightarrow> globalCarousels w' = globalCarousels w \<Longrightarrow>
   nextRef w' = nextRef w \<Longrightarrow> refs_allocated w' = refs_allocated w"
  by (simp add: refs_allocated_def)

lemma changeSlide_world_frame [simp]:
  "page (changeSlide this d w) = page w"
  "nextRef (changeSlide this d w) = nextRef w"
  "listeners (changeSlide this d w) = listeners w"
  "console (changeSlide this d w) = console w"
  "globalCarousels (changeSlide this d w) = globalCarousels w"
  by (simp_all add: changeSlide_def Let_def)

lemma goToSlide_world_frame [simp]:
  "page (goToSlide this i w) = page w"
  "nextRef (goToSlide this i w) = nextRef w"
  "listeners (goToSlide this i w) = listeners w"
  "console (goToSlide this i w) = console w"
  "globalCarousels (goToSlide this i w) = globalCarousels w"
  by (simp_all add: goToSlide_def Let_def)

lemma handleSwipe_world_frame [simp]:
  "page (handleSwipe this w) = page w"
  "nextRef (handleSwipe this w) = nextRef w"
  "listeners (handleSwipe this w) = listeners w"
  "console (handleSwipe this w) = console w"
  "globalCarousels (handleSwipe this w) = globalCarousels w"
  by (simp_all add: handleSwipe_def Let_def)

lemma changeSlide_tracked:
  "timers_tracked w \<Longrightarrow> this < nextRef w \<Longrightarrow> timers_tracked (changeSlide this d w)"
  by (simp add: changeSlide_def Let_def timers_tracked_update_this stop_clears(1)
      start_schedules_one(1))

lemma goToSlide_tracked:
  "timers_tracked w \<Longrightarrow> this < nextRef w \<Longrightarrow> timers_tracked (goToSlide this i w)"
  by (simp add: goToSlide_def Let_def timers_tracked_update_this stop_clears(1)
      start_schedules_one(1))

lemma handleSwipe_tracked:
  "timers_tracked w \<Longrightarrow> this < nextRef w \<Longrightarrow> timers_tracked (handleSwipe this w)"
  by (simp add: handleSwipe_def Let_def changeSlide_tracked)

lemma handle_event_world_frame [simp]:
  "page (handle_event h e w) = page w"
  "nextRef (handle_event h e w) = nextRef w"
  "listeners (handle_event h e w) = listeners w"
  "console (handle_event h e w) = console w"
  "globalCarousels (handle_event h e w) = globalCarousels w"
  by (cases h; cases e; simp)+

lemma handle_event_tracked:
  "timers_tracked w \<Longrightarrow> handler_this h < nextRef w \<Longrightarrow> timers_tracked (handle_event h e w)"
  by (cases h; cases e)
    (simp_all add: changeSlide_tracked goToSlide_tracked handleSwipe_tracked stop_clears(1)
      start_schedules_one(1) timers_tracked_update_this)

lemma fold_handlers:
  assumes "timers_tracked w'" and "nextRef w' = n" and "listeners w' = ls0" and "globalCarousels w' = g"
    and "\<forall>l \<in> set ls. handler_this (on_handler l) < n"
  shows "timers_tracked (fold (\<lambda>l v. if on_target l = tgt \<and> on_type l = ty
                                      then handle_event (on_handler l) e v else v) ls w') \<and>
         nextRef (fold (\<lambda>l v. if on_target l = tgt \<and> on_type l = ty
                                      then handle_event (on_handler l) e v else v) ls w') = n \<and>
         listeners (fold (\<lambda>l v. if on_target l = tgt \<and> on_type l = ty
                                      then handle_event (on_handler l) e v else v) ls w') = ls0 \<and>
         globalCarousels (fold (\<lambda>l v. if on_target l = tgt \<and> on_type l = ty
                                      then handle_event (on_handler l) e v else v) ls w') = g"
  using assms
proof (induction ls arbitrary: w')
  case Nil
  then show ?case by simp
next
  case (Cons l ls)
  show ?case
  proof (cases "on_target l = tgt \<and> on_type l = ty")
    case True
    have "timers_tracked (handle_event (on_handler l) e w')"
      using Cons.prems by (intro handle_event_tracked) simp_all
    with Cons.IH [of "handle_event (on_handler l) e w'"] Cons.prems True show ?thesis by simp
  next
    case False
    with Cons.IH [of w'] Cons.prems show ?thesis by auto
  qed
qed

lemma dispatchEvent_consistent:
  assumes "consistent w"
  shows "consistent (dispatchEvent tgt e w)" and "nextRef (dispatchEvent tgt e w) = nextRef w"
proof -
  have "\<forall>l \<in> set (listeners w). handler_this (on_handler l) < nextRef w"
    using assms by (simp add: consistent_def refs_allocated_def list_all_iff)
  with assms have *: "timers_tracked (dispatchEvent tgt e w) \<and> nextRef (dispatchEvent tgt e w) = nextRef w \<and>
    listeners (dispatchEvent tgt e w) = listeners w \<and> globalCarousels (dispatchEvent tgt e w) = globalCarousels w"
    unfolding dispatchEvent_def
    by (intro fold_handlers) (simp_all add: consistent_def)
  with assms show "consistent (dispatchEvent tgt e w)"
    by (simp add: consistent_def refs_allocated_def)
  from * show "nextRef (dispatchEvent tgt e w) = nextRef w" by simp
qed

lemma interval_fires_consistent:
  assumes "consistent w"
  shows "consistent (interval_fires h w)"
proof (cases "find (\<lambda>t. handle t = h) (intervals w)")
  case None
  with assms show ?thesis by (simp add: interval_fires_def)
next
  case (Some t)
  then have "t \<in> set (intervals w)"
    by (auto simp: find_Some_iff)
  with assms have "callback_this t < nextRef w"
    by (auto simp: consistent_def timers_tracked_def list_all_iff)
  with assms Some show ?thesis
    by (simp add: interval_fires_def consistent_def changeSlide_tracked refs_allocated_def)
qed

lemma setupEventListeners_listeners:
  "l \<in> set (listeners (setupEventListeners this w)) \<Longrightarrow>
   l \<in> set (listeners w) \<or> handler_this (on_handler l) = this"
  by (auto simp: setupEventListeners_def fold_addEventListener addEventListener_def Let_def
      split: option.splits if_splits)

lemma setupTouchEvents_listeners:
  "l \<in> set (listeners (setupTouchEvents this w)) \<Longrightarrow>
   l \<in> set (listeners w) \<or> handler_this (on_handler l) = this"
  by (auto simp: setupTouchEvents_def addEventListener_def Let_def)

lemma showSlide_consistent [simp]: "consistent (showSlide this index w) = consistent w"
  by (simp add: consistent_def refs_allocated_def)

lemma stop_consistent: "consistent w \<Longrightarrow> consistent (stopAutoAdvance this w)"
  by (simp add: consistent_def refs_allocated_def stop_clears(1))

lemma start_consistent: "consistent w \<Longrightarrow> this < nextRef w \<Longrightarrow> consistent (startAutoAdvance this w)"
  by (simp add: consistent_def refs_allocated_def start_schedules_one(1))

lemma changeSlide_consistent: "consistent w \<Longrightarrow> this < nextRef w \<Longrightarrow> consistent (changeSlide this d w)"
  by (simp add: consistent_def refs_allocated_def changeSlide_tracked)

lemma goToSlide_consistent: "consistent w \<Longrightarrow> this < nextRef w \<Longrightarrow> consistent (goToSlide this i w)"
  by (simp add: consistent_def refs_allocated_def goToSlide_tracked)

lemma handleSwipe_consistent: "consistent w \<Longrightarrow> this < nextRef w \<Longrightarrow> consistent (handleSwipe this w)"
  by (simp add: consistent_def refs_allocated_def handleSwipe_tracked)

lemma setupEventListeners_consistent:
  assumes "consistent w" and "this < nextRef w"
  shows "consistent (setupEventListeners this w)"
proof -
  have "timers_tracked (setupEventListeners this w) = timers_tracked w"
    by (rule timers_tracked_cong) simp_all
  moreover have "handler_this (on_handler l) < nextRef w"
    if "l \<in> set (listeners (setupEventListeners this w))" for l
    using setupEventListeners_listeners [OF that] assms
    by (auto simp: consistent_def refs_allocated_def list_all_iff)
  ultimately show ?thesis
    using assms by (simp add: consistent_def refs_allocated_def list_all_iff)
qed

lemma setupTouchEvents_consistent:
  assumes "consistent w" and "this < nextRef w"
  shows "consistent (setupTouchEvents this w)"
proof -
  have "timers_tracked (setupTouchEvents this w) = timers_tracked w"
    by (rule timers_tracked_cong) simp_all
  moreover have "handler_this (on_handler l) < nextRef w"
    if "l \<in> set (listeners (setupTouchEvents this w))" for l
    using setupTouchEvents_listeners [OF that] assms
    by (auto simp: consistent_def refs_allocated_def list_all_iff)
  ultimately show ?thesis
    using assms by (simp add: consistent_def refs_allocated_def list_all_iff)
qed

lemma nextRef_init [simp]: "nextRef (init this w) = nextRef w"
  by (simp add: init_def Let_def)

lemma init_consistent:
  assumes "consistent w" and "this < nextRef w"
  shows "consistent (init this w)"
  using assms
  by (simp add: init_def Let_def setupEventListeners_consistent setupTouchEvents_consistent
      start_consistent)

lemma invoke_consistent:
  assumes "consistent w" and "this < nextRef w"
  shows "consistent (invoke this m w)"
  using assms
  by (cases m)
    (simp_all add: init_consistent setupEventListeners_consistent setupTouchEvents_consistent
      handleSwipe_consistent changeSlide_consistent goToSlide_consistent start_consistent
      stop_consistent next_slide_def prev_def goTo_def destroy_def)

lemma console_error_consistent [simp]: "consistent (console_error msg w) = consistent w"
  by (simp add: consistent_def refs_allocated_def timers_tracked_def console_error_def)

lemma allocate_consistent:
  assumes "consistent w" and "autoAdvanceInterval c = None"
  shows "consistent (w\<lparr>heap := (heap w)(nextRef w := c), nextRef := Suc (nextRef w)\<rparr>)"
  using assms
  by (auto simp: consistent_def refs_allocated_def timers_tracked_def list_all_iff)

lemma Carousel_consistent:
  assumes "consistent w"
  shows "consistent (snd (Carousel containerSelector opts w))"
proof (cases "document_querySelector (page w) containerSelector")
  case None
  with assms show ?thesis by (simp add: Carousel_def)
next
  case (Some cont)
  with assms show ?thesis
    by (simp add: Carousel_def Let_def allocate_consistent init_consistent)
qed

lemma set_Map_set: "set (Map_set k v m) \<subseteq> insert (k, v) (set m)"
  by (induction m) (auto split: if_splits)

lemma Map_get_allocated:
  "consistent w \<Longrightarrow> Map_get (globalCarousels w) k = Some r \<Longrightarrow> r < nextRef w"
  by (auto simp: consistent_def refs_allocated_def list_all_iff Map_get_def dest!: map_of_SomeD)

lemma step_consistent:
  assumes "consistent w"
  shows "consistent (step a w)"
proof (cases a)
  case (Construct containerSelector opts)
  with assms show ?thesis by (simp add: Carousel_consistent)
next
  case (Register carouselId r)
  have "snd kv < nextRef w" if "kv \<in> set (Map_set carouselId r (globalCarousels w))" "r < nextRef w" for kv
    using that set_Map_set [of carouselId r "globalCarousels w"] assms
    by (auto simp: consistent_def refs_allocated_def list_all_iff)
  with assms Register show ?thesis
    by (simp add: consistent_def refs_allocated_def timers_tracked_def list_all_iff)
next
  case (Event tgt e)
  with assms show ?thesis by (simp add: dispatchEvent_consistent(1))
next
  case (Timer h)
  with assms show ?thesis by (simp add: interval_fires_consistent)
next
  case (Call this m)
  with assms show ?thesis by (simp add: invoke_consistent)
next
  case (Legacy_changeSlide direction carouselId)
  show ?thesis
  proof (cases "Map_get (globalCarousels w) (case carouselId of None \<Rightarrow> ''default'' | Some i \<Rightarrow> i)")
    case None
    with assms Legacy_changeSlide show ?thesis by (simp add: global_changeSlide_def)
  next
    case (Some r)
    from Map_get_allocated [OF assms Some] assms Some Legacy_changeSlide show ?thesis
      by (simp add: global_changeSlide_def changeSlide_consistent)
  qed
next
  case (Legacy_currentSlide index carouselId)
  show ?thesis
  proof (cases "Map_get (globalCarousels w) (case carouselId of None \<Rightarrow> ''default'' | Some i \<Rightarrow> i)")
    case None
    with assms Legacy_currentSlide show ?thesis by (simp add: currentSlide_def)
  next
    case (Some r)
    from Map_get_allocated [OF assms Some] assms Some Legacy_currentSlide show ?thesis
      by (simp add: currentSlide_def goToSlide_consistent)
  qed
qed

lemma run_consistent: "consistent w \<Longrightarrow> consistent (fold step acts w)"
  by (induction acts arbitrary: w) (simp_all add: step_consistent)

lemma nothing_created_consistent: "nothing_created w \<Longrightarrow> consistent w"
  by (simp add: nothing_created_def consistent_def timers_tracked_def refs_allocated_def)

lemma start_cancels_old:
  assumes "timers_tracked w" and "h \<in> set (timers_of this w)"
  shows "h \<notin> handle ` set (intervals (startAutoAdvance this w))"
proof -
  from assms(2) obtain t where t: "t \<in> set (intervals w)" "callback_this t = this" "handle t = h"
    by (auto simp: timers_of_def)
  note f = no_timer_without_handle [OF assms(1) t(1,2)]
  from f(1,2) t(3) have "intervals (stopAutoAdvance this w) = filter (\<lambda>t. handle t \<noteq> h) (intervals w)"
    by (simp add: stopAutoAdvance_def clearInterval_def)
  with f(3) t(3) show ?thesis
    by (auto simp: startAutoAdvance_def setInterval_def Let_def)
qed

lemma start_repeated:
  assumes "timers_tracked w" and "this < nextRef w"
  shows "timers_tracked ((startAutoAdvance this ^^ n) w) \<and>
         nextRef ((startAutoAdvance this ^^ n) w) = nextRef w \<and>
         lastHandle ((startAutoAdvance this ^^ n) w) = lastHandle w + n"
  using assms by (induction n) (simp_all add: start_schedules_one(1))

lemma changeSlide_resets_timer:
  assumes "timers_tracked w" and "this < nextRef w" and "autoAdvance (options (heap w this))"
  shows "timers_of this (changeSlide this d w) = [Suc (lastHandle w)]"
  using assms
  by (simp add: changeSlide_def Let_def start_schedules_one(2) stop_clears(1)
      timers_tracked_update_this heap_update_this)

lemma goToSlide_resets_timer:
  assumes "timers_tracked w" and "this < nextRef w" and "autoAdvance (options (heap w this))"
    and "0 \<le> index" and "index < totalSlides (heap w this)"
  shows "timers_of this (goToSlide this index w) = [Suc (lastHandle w)]"
  using assms
  by (simp add: goToSlide_def Let_def start_schedules_one(2) stop_clears(1)
      timers_tracked_update_this heap_update_this)

text \<open>
  \<^bold>\<open>C5.\<close> At most one auto-advance timer is live per instance at any time: on a page where
  nothing has been created yet, after any sequence \<open>acts\<close> of constructions, registrations,
  events, timer ticks, method calls and legacy calls, every instance \<open>a\<close> has at most one live
  timer. In any world where the timers are tracked (every world reached that way is), for
  an existing instance: \<^verbatim>\<open>startAutoAdvance\<close> called \<open>n + 1\<close> times in a row leaves exactly one
  timer of the instance, the newest handle; no timer that the instance had before a call of
  \<^verbatim>\<open>startAutoAdvance\<close> is live after it; with \<^verbatim>\<open>autoAdvance\<close> enabled, \<^verbatim>\<open>changeSlide\<close> and
  \<^verbatim>\<open>goToSlide\<close> on a valid index leave exactly one timer of the instance, a newly created one;
  and after each of the three no instance has more than one live timer.
\<close>

theorem at_most_one_timer:
  "(nothing_created w0 \<longrightarrow> (\<forall>acts a. length (timers_of a (fold step acts w0)) \<le> 1)) \<and>
   (timers_tracked w \<and> this < nextRef w \<longrightarrow>
      (\<forall>n. timers_of this ((startAutoAdvance this ^^ Suc n) w) = [lastHandle w + Suc n]) \<and>
      (\<forall>h \<in> set (timers_of this w). h \<notin> handle ` set (intervals (startAutoAdvance this w))) \<and>
      (autoAdvance (options (heap w this)) \<longrightarrow>
         timers_of this (changeSlide this direction w) = [Suc (lastHandle w)] \<and>
         (0 \<le> index \<and> index < totalSlides (heap w this) \<longrightarrow>
            timers_of this (goToSlide this index w) = [Suc (lastHandle w)])) \<and>
      (\<forall>a. length (timers_of a (startAutoAdvance this w)) \<le> 1 \<and>
           length (timers_of a (changeSlide this direction w)) \<le> 1 \<and>
           length (timers_of a (goToSlide this index w)) \<le> 1))"
proof (intro conjI impI allI ballI)
  fix acts a
  assume "nothing_created w0"
  then have "consistent (fold step acts w0)"
    by (intro run_consistent nothing_created_consistent)
  then have "timers_tracked (fold step acts w0)"
    by (simp add: consistent_def)
  then show "length (timers_of a (fold step acts w0)) \<le> 1"
    by (rule tracked_at_most_one)
next
  fix n
  assume a: "timers_tracked w \<and> this < nextRef w"
  then have r: "timers_tracked ((startAutoAdvance this ^^ n) w) \<and>
         nextRef ((startAutoAdvance this ^^ n) w) = nextRef w \<and>
         lastHandle ((startAutoAdvance this ^^ n) w) = lastHandle w + n"
    by (intro start_repeated) simp_all
  with a have "timers_of this (startAutoAdvance this ((startAutoAdvance this ^^ n) w))
        = [Suc (lastHandle ((startAutoAdvance this ^^ n) w))]"
    by (intro start_schedules_one(2)) simp_all
  with r show "timers_of this ((startAutoAdvance this ^^ Suc n) w) = [lastHandle w + Suc n]"
    by simp
next
  fix h
  assume "timers_tracked w \<and> this < nextRef w" and "h \<in> set (timers_of this w)"
  then show "h \<notin> handle ` set (intervals (startAutoAdvance this w))"
    by (intro start_cancels_old) simp_all
next
  assume "timers_tracked w \<and> this < nextRef w" and "autoAdvance (options (heap w this))"
  then show "timers_of this (changeSlide this direction w) = [Suc (lastHandle w)]"
    by (intro changeSlide_resets_timer) simp_all
next
  assume "timers_tracked w \<and> this < nextRef w" and "autoAdvance (options (heap w this))"
    and "0 \<le> index \<and> index < totalSlides (heap w this)"
  then show "timers_of this (goToSlide this index w) = [Suc (lastHandle w)]"
    by (intro goToSlide_resets_timer) simp_all
next
  fix a
  assume "timers_tracked w \<and> this < nextRef w"
  then show "length (timers_of a (startAutoAdvance this w)) \<le> 1"
    by (intro tracked_at_most_one start_schedules_one(1)) simp_all
next
  fix a
  assume "timers_tracked w \<and> this < nextRef w"
  then show "length (timers_of a (changeSlide this direction w)) \<le> 1"
    by (intro tracked_at_most_one changeSlide_tracked) simp_all
next
  fix a
  assume "timers_tracked w \<and> this < nextRef w"
  then show "length (timers_of a (goToSlide this index w)) \<le> 1"
    by (intro tracked_at_most_one goToSlide_tracked) simp_all
qed

text \<open>On the example page: a run from the empty page, and the running carousel whose timer
  has handle 1.\<close>

theorem at_most_one_timer_witness:
  "nothing_created loaded_page \<and>
   length (timers_of 0 (fold step
     [Construct ''.carousel-container:not([data-carousel])'' no_overrides,
      Register ''default'' 0, Event (Element 8) Click, Event (Element 0) Mouseleave,
      Timer 3, Call 0 StartAutoAdvance, Legacy_currentSlide 2 None] loaded_page)) \<le> 1 \<and>
   timers_tracked (running_page True True 0) \<and> 0 < nextRef (running_page True True 0) \<and>
   timers_of 0 (running_page True True 0) = [1] \<and>
   timers_of 0 (startAutoAdvance 0 (running_page True True 0)) = [2] \<and>
   timers_of 0 (startAutoAdvance 0 (startAutoAdvance 0 (running_page True True 0))) = [3] \<and>
   1 \<notin> handle ` set (intervals (startAutoAdvance 0 (running_page True True 0))) \<and>
   timers_of 0 (changeSlide 0 1 (running_page True True 0)) = [2] \<and>
   timers_of 0 (goToSlide 0 2 (running_page True True 0)) = [2]"
proof -
  let ?w = "running_page True True 0"
  have a: "nothing_created loaded_page"
    by (simp add: nothing_created_def loaded_page_def)
  have b: "timers_tracked ?w" "0 < nextRef ?w" "timers_of 0 ?w = [1]" "lastHandle ?w = 1"
    by (simp_all add: timers_tracked_def timers_of_def running_page_def three_slides_def)
  note t = at_most_one_timer [of loaded_page ?w 0 1 2]
  from t a have 1: "length (timers_of 0 (fold step
     [Construct ''.carousel-container:not([data-carousel])'' no_overrides,
      Register ''default'' 0, Event (Element 8) Click, Event (Element 0) Mouseleave,
      Timer 3, Call 0 StartAutoAdvance, Legacy_currentSlide 2 None] loaded_page)) \<le> 1"
    by blast
  from t b have 2: "\<forall>n. timers_of 0 ((startAutoAdvance 0 ^^ Suc n) ?w) = [lastHandle ?w + Suc n]"
    and 3: "\<forall>h \<in> set (timers_of 0 ?w). h \<notin> handle ` set (intervals (startAutoAdvance 0 ?w))"
    and 4: "timers_of 0 (changeSlide 0 1 ?w) = [Suc (lastHandle ?w)]"
    and 5: "timers_of 0 (goToSlide 0 2 ?w) = [Suc (lastHandle ?w)]"
    by simp_all
  from 2 [THEN spec, of 0] 2 [THEN spec, of 1] b(4)
  have 6: "timers_of 0 (startAutoAdvance 0 ?w) = [2]"
    "timers_of 0 (startAutoAdvance 0 (startAutoAdvance 0 ?w)) = [3]"
    by simp_all
  from 3 b(3) have 7: "1 \<notin> handle ` set (intervals (startAutoAdvance 0 ?w))"
    by simp
  from a 1 b 4 5 6 7 show ?thesis by simp
qed

end
